theory Spec2Isabelle
  imports Complex_Main "HOL-Library.Word" "HOL-Library.Signed_Division" "HOL-Library.Log_Nat"
begin

unbundle bit_operations_syntax

section \<open>A131 spindle control over RS485 (A131SpindleControl.cpp)\<close>

text \<open>
  The driver commands a variable-frequency drive through a half-duplex serial line.
  Every operation of the class works on the shared \<open>Modbus\<close> object (direction pin,
  delay primitive, serial port) and on the \<open>spindle_on\<close> flag of the controller.

  Machine types of the target (LPC1768, ARM EABI): \<open>char\<close> is an unsigned 8-bit
  value, \<open>int\<close> and \<open>unsigned int\<close> have 32 bits.
\<close>

type_synonym u8 = "8 word"
type_synonym u32 = "32 word"

subsection \<open>External effects\<close>

text \<open>
  Each call on the collaborators of the driver is recorded as one event, in call order.
  \<open>Readable b\<close> and \<open>Getc c\<close> carry the value the serial port returned.
\<close>

datatype event =
    Dir_set
  | Dir_clear
  | Delay int
  | Serial_write "u8 list"
  | Readable bool
  | Getc u8
  | Printf_rpm u32

subsection \<open>Binary floating point\<close>

text \<open>
  A finite binary floating-point number is a pair \<open>(m, e)\<close> standing for \<open>m * 2 ^ e\<close>.
  \<open>round_to p\<close> rounds to \<open>p\<close> significant bits, to nearest, ties to even (the IEEE 754
  default); \<open>p = 53\<close> is C's \<open>double\<close>, \<open>p = 24\<close> is \<open>float\<close>. Exponent range
  (overflow, subnormal numbers) is not modelled: the values of this driver stay far
  inside it.
\<close>

type_synonym flt = "int \<times> int"

definition round_to :: "nat \<Rightarrow> flt \<Rightarrow> flt" where
  "round_to p x =
     (case x of (m, e) \<Rightarrow>
        let n = nat (bitlen \<bar>m\<bar>) in
        if n \<le> p then (m, e)
        else
          let k = n - p;
              q = \<bar>m\<bar> div 2 ^ k;
              r = \<bar>m\<bar> mod 2 ^ k;
              h = 2 ^ (k - 1);
              q' = (if h < r \<or> (r = h \<and> odd q) then q + 1 else q)
          in (sgn m * q', e + int k))"

definition flt_of_int :: "nat \<Rightarrow> int \<Rightarrow> flt" where
  "flt_of_int p i = round_to p (i, 0)"

definition flt_mult :: "nat \<Rightarrow> flt \<Rightarrow> flt \<Rightarrow> flt" where
  "flt_mult p a b = round_to p (fst a * fst b, snd a + snd b)"

definition flt_add :: "nat \<Rightarrow> flt \<Rightarrow> flt \<Rightarrow> flt" where
  "flt_add p a b =
     (let e = min (snd a) (snd b)
      in round_to p (fst a * 2 ^ nat (snd a - e) + fst b * 2 ^ nat (snd b - e), e))"

text \<open>Conversion to an integer type truncates towards zero; \<open>ceil\<close> rounds up.\<close>

definition flt_trunc :: "flt \<Rightarrow> int" where
  "flt_trunc x =
     (case x of (m, e) \<Rightarrow>
        if 0 \<le> e then m * 2 ^ nat e else sgn m * (\<bar>m\<bar> div 2 ^ nat (- e)))"

definition flt_ceil :: "flt \<Rightarrow> int" where
  "flt_ceil x =
     (case x of (m, e) \<Rightarrow>
        if 0 \<le> e then m * 2 ^ nat e else - ((- m) div 2 ^ nat (- e)))"

text \<open>The \<open>double\<close> literals \<open>0.1\<close> and \<open>0.01\<close> (0x3FB999999999999A, 0x3F847AE147AE147B).\<close>

definition dbl_0_1 :: flt where
  "dbl_0_1 = (7205759403792794, - 56)"

definition dbl_0_01 :: flt where
  "dbl_0_01 = (5764607523034235, - 59)"

subsection \<open>The Modbus object and the controller\<close>

text \<open>
  Modelled from the spec: the collaborators of the driver, whose code is outside
  A131SpindleControl.cpp (the class \<open>Modbus\<close> with its direction pin, its \<open>delay\<close>
  and its serial port, and the output stream of the kernel). The transport contract:
  \<open>write\<close> sends the bytes in order; \<open>readable\<close> is a non-blocking check for at least
  one buffered byte; \<open>getc\<close> is a blocking read of exactly one byte; \<open>delay\<close> is a
  blocking sleep; the direction line is asserted and deasserted. Each call is modelled
  by the event it appends to the log \<open>effects\<close>; the line that \<open>report_speed\<close> prints
  to the kernel's streams is logged there too.

  Of the Modbus object the driver reads the field \<open>delay_time\<close> (time to send one
  byte). Its floating-point type is declared in \<open>Modbus.h\<close>, so its number of
  significant bits is the parameter \<open>delay_time_bits\<close> (24 for \<open>float\<close>, 53 for
  \<open>double\<close>).

  The answers of the serial port are given by two scripts: \<open>readable_replies\<close> holds
  the results of the coming calls of \<open>readable()\<close>, \<open>getc_replies\<close> the bytes the
  coming calls of \<open>getc()\<close> return. A call of \<open>getc()\<close> with no byte left blocks
  forever; a call of \<open>readable()\<close> beyond the script is not followed further. Both
  are the result \<open>Inl\<close>, with the state reached.
\<close>

record modbus =
  delay_time :: flt
  delay_time_bits :: nat
  effects :: "event list"
  readable_replies :: "bool list"
  getc_replies :: "u8 list"

record a131 =
  spindle_on :: bool
  modbus :: modbus

datatype no_return = Getc_blocks | Readable_unanswered

definition dir_output_set :: "modbus \<Rightarrow> modbus" where
  "dir_output_set m = m\<lparr>effects := effects m @ [Dir_set]\<rparr>"

definition dir_output_clear :: "modbus \<Rightarrow> modbus" where
  "dir_output_clear m = m\<lparr>effects := effects m @ [Dir_clear]\<rparr>"

definition delay :: "int \<Rightarrow> modbus \<Rightarrow> modbus" where
  "delay n m = m\<lparr>effects := effects m @ [Delay n]\<rparr>"

definition serial_write :: "u8 list \<Rightarrow> nat \<Rightarrow> modbus \<Rightarrow> modbus" where
  "serial_write buf n m = m\<lparr>effects := effects m @ [Serial_write (take n buf)]\<rparr>"

definition serial_readable :: "modbus \<Rightarrow> (no_return \<times> modbus) + (bool \<times> modbus)" where
  "serial_readable m =
     (case readable_replies m of
        [] \<Rightarrow> Inl (Readable_unanswered, m)
      | b # bs \<Rightarrow> Inr (b, m\<lparr>effects := effects m @ [Readable b], readable_replies := bs\<rparr>))"

definition serial_getc :: "modbus \<Rightarrow> (no_return \<times> modbus) + (u8 \<times> modbus)" where
  "serial_getc m =
     (case getc_replies m of
        [] \<Rightarrow> Inl (Getc_blocks, m)
      | c # cs \<Rightarrow> Inr (c, m\<lparr>effects := effects m @ [Getc c], getc_replies := cs\<rparr>))"

definition kernel_printf_rpm :: "u32 \<Rightarrow> modbus \<Rightarrow> modbus" where
  "kernel_printf_rpm rpm m = m\<lparr>effects := effects m @ [Printf_rpm rpm]\<rparr>"

text \<open>
  \<open>(int)ceil(n * modbus->delay_time)\<close>: \<open>n\<close> is a \<open>sizeof\<close>, converted to the
  type of \<open>delay_time\<close>; the product is rounded to that type.
\<close>

definition send_time :: "nat \<Rightarrow> modbus \<Rightarrow> int" where
  "send_time n m =
     (let p = delay_time_bits m
      in flt_ceil (flt_mult p (flt_of_int p (int n)) (delay_time m)))"

subsection \<open>turn_on\<close>

definition turn_on_msg_init :: "u8 list" where
  "turn_on_msg_init = [0x00, 0x55, 0x00, 0x00, 0x00, 0x01, 0x54, 0xA9, 0xFF]"

definition turn_on_msg :: "u8 list" where
  "turn_on_msg =
     (let msg = turn_on_msg_init;
          msg = msg[7 := msg ! 2 XOR msg ! 3 XOR msg ! 4 XOR msg ! 5 XOR msg ! 6];
          msg = msg[8 := msg ! 2 + msg ! 3 + msg ! 4 + msg ! 5 + msg ! 6 + msg ! 7]
      in msg)"

definition turn_on :: "a131 \<Rightarrow> a131" where
  "turn_on s =
     (let msg = turn_on_msg;
          m = modbus s;
          m = dir_output_set m;
          m = delay 1 m;
          m = serial_write msg (length msg) m;
          m = delay (send_time (length msg) m) m;
          m = dir_output_clear m;
          m = delay 50 m
      in s\<lparr>modbus := m, spindle_on := True\<rparr>)"

subsection \<open>turn_off\<close>

definition turn_off_msg :: "u8 list" where
  "turn_off_msg = [0x00, 0x55, 0x00, 0x00, 0x01, 0x01, 0x54, 0xA9, 0xFF]"

definition turn_off :: "a131 \<Rightarrow> a131" where
  "turn_off s =
     (let msg = turn_off_msg;
          m = modbus s;
          m = dir_output_set m;
          m = delay 1 m;
          m = serial_write msg (length msg) m;
          m = delay (send_time (length msg) m) m;
          m = dir_output_clear m;
          m = delay 50 m
      in s\<lparr>modbus := m, spindle_on := False\<rparr>)"

subsection \<open>set_speed\<close>

text \<open>
  \<open>unsigned int hz = target_rpm / 60 * 100\<close>: the division and the product are on
  \<open>int\<close>; C's division truncates towards zero. The product wraps at 32 bits, as the
  target's arithmetic does.
\<close>

definition int_div :: "u32 \<Rightarrow> u32 \<Rightarrow> u32" where
  "int_div a b = word_of_int (sint a sdiv sint b)"

definition rpm_to_hz :: "u32 \<Rightarrow> u32" where
  "rpm_to_hz target_rpm = int_div target_rpm 60 * 100"

definition set_speed_msg_init :: "u8 list" where
  "set_speed_msg_init = [0x00, 0x55, 0x00, 0x00, 0x06, 0x01, 0x54, 0xA9, 0xFF]"

definition set_speed_msg :: "u32 \<Rightarrow> u8 list" where
  "set_speed_msg target_rpm =
     (let msg = set_speed_msg_init;
          hz = rpm_to_hz target_rpm;
          msg = msg[3 := ucast (drop_bit 8 hz)];
          msg = msg[4 := ucast (hz AND 0xFF)]
      in msg)"

definition set_speed :: "u32 \<Rightarrow> a131 \<Rightarrow> a131" where
  "set_speed target_rpm s =
     (let msg = set_speed_msg target_rpm;
          m = modbus s;
          m = dir_output_set m;
          m = delay 1 m;
          m = serial_write msg (length msg) m;
          m = delay (send_time (length msg) m) m;
          m = dir_output_clear m;
          m = delay 50 m
      in s\<lparr>modbus := m\<rparr>)"

subsection \<open>report_speed\<close>

text \<open>
  \<open>while(modbus->serial->readable()) modbus->serial->getc();\<close>
  The loop ends when \<open>readable()\<close> answers false. It does not return when the
  script of answers ends before that, or when \<open>getc()\<close> blocks.
\<close>

function clear_rx :: "modbus \<Rightarrow> (no_return \<times> modbus) + modbus" where
  "clear_rx m =
     (case serial_readable m of
        Inl stuck \<Rightarrow> Inl stuck
      | Inr (b, m1) \<Rightarrow>
          if b then
            (case serial_getc m1 of
               Inl stuck \<Rightarrow> Inl stuck
             | Inr (c, m2) \<Rightarrow> clear_rx m2)
          else Inr m1)"
  by pat_completeness auto
termination
  by (relation "measure (\<lambda>m. length (readable_replies m))")
     (auto simp: serial_readable_def serial_getc_def split: list.splits)

declare clear_rx.simps [simp del]

text \<open>\<open>for(int i = 0; i < 13; i++) speed[i] = modbus->serial->getc();\<close>\<close>

function read_answer :: "nat \<Rightarrow> u8 list \<Rightarrow> modbus \<Rightarrow> (no_return \<times> modbus) + (u8 list \<times> modbus)" where
  "read_answer i speed m =
     (if i < 13 then
        (case serial_getc m of
           Inl stuck \<Rightarrow> Inl stuck
         | Inr (c, m1) \<Rightarrow> read_answer (i + 1) (speed[i := c]) m1)
      else Inr (speed, m))"
  by pat_completeness auto
termination
  by (relation "measure (\<lambda>(i, speed, m). 13 - i)") auto

declare read_answer.simps [simp del]

text \<open>
  \<open>unsigned int hz = (int)speed[3] * 100 + (int)speed[4] * 10 + (int)speed[5] * 1
                      + (int)speed[6] * 0.1 + (int)speed[7] * 0.01;\<close>
  The first three products and their sum are on \<open>int\<close> (at most 28305, no overflow);
  the last two products and the two additions that follow are on \<open>double\<close>; the
  conversion to \<open>unsigned int\<close> truncates.
\<close>

definition decode_hz :: "u8 list \<Rightarrow> u32" where
  "decode_hz speed =
     (let whole = uint (speed ! 3) * 100 + uint (speed ! 4) * 10 + uint (speed ! 5) * 1;
          t6 = flt_mult 53 (flt_of_int 53 (uint (speed ! 6))) dbl_0_1;
          t7 = flt_mult 53 (flt_of_int 53 (uint (speed ! 7))) dbl_0_01
      in word_of_int (flt_trunc (flt_add 53 (flt_add 53 (flt_of_int 53 whole) t6) t7)))"

text \<open>\<open>unsigned int rpm = hz / 100 * 60;\<close>\<close>

definition hz_to_rpm :: "u32 \<Rightarrow> u32" where
  "hz_to_rpm hz = hz div 100 * 60"

definition speed_init :: "u8 list" where
  "speed_init = [0x00, 0x00, 0x00, 0x00, 0x00, 0x00, 0x00, 0x00, 0x00, 0x00, 0x00, 0x00, 0x00]"

definition report_speed :: "a131 \<Rightarrow> (no_return \<times> modbus) + a131" where
  "report_speed s =
     (case clear_rx (modbus s) of
        Inl stuck \<Rightarrow> Inl stuck
      | Inr m \<Rightarrow>
          (case read_answer 0 speed_init m of
             Inl stuck \<Rightarrow> Inl stuck
           | Inr (speed, m) \<Rightarrow>
               let hz = decode_hz speed;
                   rpm = hz_to_rpm hz;
                   m = kernel_printf_rpm rpm m
               in Inr (s\<lparr>modbus := m\<rparr>)))"

subsection \<open>The protocol's words\<close>

text \<open>
  The checksum pair as the protocol description words it, for a payload of five bytes
  (bytes 2 to 6 of a command frame, counted from 1): the XOR of the five bytes, and
  their sum plus the XOR, truncated to one byte.
\<close>

definition payload :: "u8 list \<Rightarrow> u8 list" where
  "payload frame = take 5 (drop 1 frame)"

definition protocol_xor :: "u8 list \<Rightarrow> u8" where
  "protocol_xor p = p ! 0 XOR p ! 1 XOR p ! 2 XOR p ! 3 XOR p ! 4"

definition protocol_add :: "u8 list \<Rightarrow> u8" where
  "protocol_add p = p ! 0 + p ! 1 + p ! 2 + p ! 3 + p ! 4 + protocol_xor p"

text \<open>The events of discarding the bytes \<open>ds\<close> in the loop that clears the receive buffer.\<close>

definition discards :: "u8 list \<Rightarrow> event list" where
  "discards ds = concat (map (\<lambda>d. [Readable True, Getc d]) ds)"

text \<open>
  An example run: the receive buffer holds two stale bytes, then the drive sends the
  status frame of a display showing 00250 with the clockwise indicator set.
\<close>

definition status_00250 :: "u8 list" where
  "status_00250 = [0x00, 0x55, 0, 0, 2, 5, 0, 0x02, 0x01, 0x00, 0x51, 0xB0, 0xFF]"

definition example_modbus :: modbus where
  "example_modbus =
     \<lparr>delay_time = (9611947, - 23), delay_time_bits = 24, effects = [],
      readable_replies = [True, True, False], getc_replies = [0x12, 0xFF] @ status_00250\<rparr>"

definition example_a131 :: a131 where
  "example_a131 = \<lparr>spindle_on = True, modbus = example_modbus\<rparr>"

definition example_reported :: a131 where
  "example_reported =
     example_a131\<lparr>modbus := example_modbus
       \<lparr>effects := discards [0x12, 0xFF] @ [Readable False] @ map Getc status_00250
                     @ [Printf_rpm 0],
        readable_replies := [], getc_replies := []\<rparr>\<rparr>"

text \<open>
  Three more states of the example controller, with other times for a byte: 1.25 ms,
  whose product with 9 is exact in a \<open>float\<close>; and a \<open>float\<close> and a \<open>double\<close>
  slightly above 16/9 ms, whose products with 9 are rounded down to 16.
\<close>

definition example_exact :: a131 where
  "example_exact = example_a131\<lparr>modbus := example_modbus\<lparr>delay_time := (5, - 2)\<rparr>\<rparr>"

definition example_rounded :: a131 where
  "example_rounded =
     example_a131\<lparr>modbus := example_modbus\<lparr>delay_time := (14913081, - 23)\<rparr>\<rparr>"

definition example_rounded_double :: a131 where
  "example_rounded_double =
     example_a131\<lparr>modbus := example_modbus
       \<lparr>delay_time := (8006399337547549, - 52), delay_time_bits := 53\<rparr>\<rparr>"

text \<open>The value of a floating-point number.\<close>

definition flt_val :: "flt \<Rightarrow> real" where
  "flt_val x = real_of_int (fst x) * 2 powr real_of_int (snd x)"

section \<open>Properties\<close>

subsection \<open>The three command frames\<close>

lemma turn_on_msg_eval:
  "turn_on_msg = [0x00, 0x55, 0x00, 0x00, 0x00, 0x01, 0x54, 0x55, 0xAA]"
  by (simp add: turn_on_msg_def turn_on_msg_init_def Let_def)

lemma turn_on_msg_length: "length turn_on_msg = 9"
  by (simp add: turn_on_msg_eval)

lemma turn_off_msg_length: "length turn_off_msg = 9"
  by (simp add: turn_off_msg_def)

lemma set_speed_msg_length: "length (set_speed_msg rpm) = 9"
  by (simp add: set_speed_msg_def set_speed_msg_init_def Let_def)

lemma send_time_effects: "send_time n (m\<lparr>effects := es\<rparr>) = send_time n m"
  by (simp add: send_time_def)

lemma turn_on_effects:
  "effects (modbus (turn_on s)) =
     effects (modbus s) @
       [Dir_set, Delay 1, Serial_write turn_on_msg, Delay (send_time 9 (modbus s)),
        Dir_clear, Delay 50]"
  by (simp add: turn_on_def Let_def dir_output_set_def dir_output_clear_def delay_def
      serial_write_def turn_on_msg_length send_time_effects)

lemma turn_off_effects:
  "effects (modbus (turn_off s)) =
     effects (modbus s) @
       [Dir_set, Delay 1, Serial_write turn_off_msg, Delay (send_time 9 (modbus s)),
        Dir_clear, Delay 50]"
  by (simp add: turn_off_def Let_def dir_output_set_def dir_output_clear_def delay_def
      serial_write_def turn_off_msg_length send_time_effects)

lemma set_speed_effects:
  "effects (modbus (set_speed rpm s)) =
     effects (modbus s) @
       [Dir_set, Delay 1, Serial_write (set_speed_msg rpm), Delay (send_time 9 (modbus s)),
        Dir_clear, Delay 50]"
  by (simp add: set_speed_def Let_def dir_output_set_def dir_output_clear_def delay_def
      serial_write_def set_speed_msg_length send_time_effects)

text \<open>
  Claim C1. The frame that \<open>turn_on\<close> writes to the serial port. The initialiser is the
  documented frame ending in 0x54, 0xA9, 0xFF, but the two assignments that follow
  store at the array indices 7 and 8: the frame on the wire ends in 0x54, 0x55, 0xAA.
\<close>

theorem turn_on_frame_on_wire:
  "effects (modbus (turn_on s)) =
     effects (modbus s) @
       [Dir_set, Delay 1,
        Serial_write [0x00, 0x55, 0x00, 0x00, 0x00, 0x01, 0x54, 0x55, 0xAA],
        Delay (send_time 9 (modbus s)), Dir_clear, Delay 50]
   \<and> turn_on_msg \<noteq> [0x00, 0x55, 0x00, 0x00, 0x00, 0x01, 0x54, 0xA9, 0xFF]"
  by (simp add: turn_on_effects turn_on_msg_eval)

text \<open>
  The sum of five bytes and their XOR is even, so the literal 0xA9 is the sum byte of no
  payload: the trailer of \<open>set_speed\<close> is stale for every target.
\<close>

lemma protocol_add_even: "even (protocol_add p)"
  by (auto simp add: protocol_add_def protocol_xor_def even_xor_iff)

lemma set_speed_trailer_literal:
  "set_speed_msg rpm ! 6 = 0x54 \<and> set_speed_msg rpm ! 7 = 0xA9"
  by (simp add: set_speed_msg_def set_speed_msg_init_def Let_def)

lemma set_speed_add_never_fresh:
  "set_speed_msg rpm ! 7 \<noteq> protocol_add (payload (set_speed_msg rpm))"
proof
  assume "set_speed_msg rpm ! 7 = protocol_add (payload (set_speed_msg rpm))"
  then have "even (set_speed_msg rpm ! 7)"
    by (simp only: protocol_add_even)
  then show False
    by (simp add: set_speed_trailer_literal)
qed

text \<open>
  Claim C2. \<open>turn_off\<close> and \<open>set_speed\<close> send the trailer bytes 0x54, 0xA9 of their
  initialisers. For the frame of \<open>turn_off\<close> the checksum pair of the payload is
  0x55, 0xAC; for the frame of \<open>set_speed(3000)\<close> it is 0xCF, 0xC0; for no target
  is the sum byte that \<open>set_speed\<close> sends the sum byte of its payload.
\<close>

theorem turn_off_set_speed_trailer_stale:
  "Serial_write turn_off_msg \<in> set (effects (modbus (turn_off s)))
   \<and> turn_off_msg ! 6 = 0x54 \<and> turn_off_msg ! 7 = 0xA9
   \<and> protocol_xor (payload turn_off_msg) = 0x55
   \<and> protocol_add (payload turn_off_msg) = 0xAC
   \<and> Serial_write (set_speed_msg 3000) \<in> set (effects (modbus (set_speed 3000 s)))
   \<and> set_speed_msg 3000 ! 6 = 0x54 \<and> set_speed_msg 3000 ! 7 = 0xA9
   \<and> protocol_xor (payload (set_speed_msg 3000)) = 0xCF
   \<and> protocol_add (payload (set_speed_msg 3000)) = 0xC0
   \<and> set_speed_msg rpm ! 6 = 0x54 \<and> set_speed_msg rpm ! 7 = 0xA9
   \<and> set_speed_msg rpm ! 7 \<noteq> protocol_add (payload (set_speed_msg rpm))"
proof -
  have off: "turn_off_msg = [0x00, 0x55, 0x00, 0x00, 0x01, 0x01, 0x54, 0xA9, 0xFF]"
    by (simp add: turn_off_msg_def)
  have hz: "rpm_to_hz 3000 = 5000"
    by (simp add: rpm_to_hz_def int_div_def signed_divide_int_def)
  have speed: "set_speed_msg 3000 = [0x00, 0x55, 0x00, 0x13, 0x88, 0x01, 0x54, 0xA9, 0xFF]"
    by (simp add: set_speed_msg_def set_speed_msg_init_def Let_def hz)
  have "Serial_write turn_off_msg \<in> set (effects (modbus (turn_off s)))"
    by (simp add: turn_off_effects)
  moreover have "Serial_write (set_speed_msg 3000) \<in> set (effects (modbus (set_speed 3000 s)))"
    by (simp add: set_speed_effects)
  moreover have "protocol_xor (payload turn_off_msg) = 0x55"
    and "protocol_add (payload turn_off_msg) = 0xAC"
    by (simp_all add: off payload_def protocol_xor_def protocol_add_def)
  moreover have "protocol_xor (payload (set_speed_msg 3000)) = 0xCF"
    and "protocol_add (payload (set_speed_msg 3000)) = 0xC0"
    by (simp_all add: speed payload_def protocol_xor_def protocol_add_def)
  moreover have "turn_off_msg ! 6 = 0x54" "turn_off_msg ! 7 = 0xA9"
    by (simp_all add: off)
  moreover have "set_speed_msg 3000 ! 6 = 0x54" "set_speed_msg 3000 ! 7 = 0xA9"
    by (simp_all add: speed)
  moreover have "set_speed_msg rpm ! 6 = 0x54" "set_speed_msg rpm ! 7 = 0xA9"
    by (simp_all add: set_speed_trailer_literal)
  moreover have "set_speed_msg rpm ! 7 \<noteq> protocol_add (payload (set_speed_msg rpm))"
    by (rule set_speed_add_never_fresh)
  ultimately show ?thesis by blast
qed

text \<open>
  Claim C3. The checksum computation of \<open>turn_on\<close>, on the frame it builds. The payload
  (bytes 2 to 6 of the frame, counted from 1) has the checksum pair 0x54, 0xAA. The
  code's XOR runs over the array indices 2 to 6, which are the bytes 3 to 7, and gives
  0x55; it is stored at byte 8, where the sum belongs, and the sum is stored at byte 9.
\<close>

theorem turn_on_checksum_positions:
  "protocol_xor (payload turn_on_msg) = 0x54
   \<and> protocol_add (payload turn_on_msg) = 0xAA
   \<and> turn_on_msg ! 6 = 0x54
   \<and> turn_on_msg ! 7 = 0x55
   \<and> turn_on_msg ! 7 \<noteq> protocol_add (payload turn_on_msg)
   \<and> turn_on_msg ! 8 = 0xAA"
  by (simp add: turn_on_msg_eval payload_def protocol_xor_def protocol_add_def)

text \<open>
  What the two assignments compute from the initialiser: the XOR of the array elements
  2 to 6 goes to index 7, their sum plus that XOR to index 8.
\<close>

lemma turn_on_msg_trailer:
  "turn_on_msg ! 7 =
     turn_on_msg_init ! 2 XOR turn_on_msg_init ! 3 XOR turn_on_msg_init ! 4 XOR
     turn_on_msg_init ! 5 XOR turn_on_msg_init ! 6"
  "turn_on_msg ! 8 =
     turn_on_msg_init ! 2 + turn_on_msg_init ! 3 + turn_on_msg_init ! 4 +
     turn_on_msg_init ! 5 + turn_on_msg_init ! 6 + turn_on_msg ! 7"
  by (simp_all add: turn_on_msg_eval turn_on_msg_init_def)

text \<open>
  Claim C4. The bytes 1, 2, 6 and 9 of the frames, counted from 1. In the frame of
  \<open>turn_on\<close> the bytes 1, 2 and 6 are 0x00, 0x55 and 0x01, but byte 9 is 0xAA.
\<close>

theorem turn_on_fixed_bytes:
  "Serial_write turn_on_msg \<in> set (effects (modbus (turn_on s)))
   \<and> turn_on_msg ! 0 = 0x00 \<and> turn_on_msg ! 1 = 0x55 \<and> turn_on_msg ! 5 = 0x01
   \<and> turn_on_msg ! 8 = 0xAA \<and> turn_on_msg ! 8 \<noteq> 0xFF"
  by (simp add: turn_on_effects turn_on_msg_eval)

text \<open>The frames of \<open>turn_off\<close> and \<open>set_speed\<close> do have the four fixed bytes.\<close>

lemma turn_off_fixed_bytes:
  "turn_off_msg ! 0 = 0x00 \<and> turn_off_msg ! 1 = 0x55 \<and> turn_off_msg ! 5 = 0x01
   \<and> turn_off_msg ! 8 = 0xFF"
  by (simp add: turn_off_msg_def)

lemma set_speed_fixed_bytes:
  "set_speed_msg rpm ! 0 = 0x00 \<and> set_speed_msg rpm ! 1 = 0x55 \<and> set_speed_msg rpm ! 5 = 0x01
   \<and> set_speed_msg rpm ! 8 = 0xFF"
  by (simp add: set_speed_msg_def set_speed_msg_init_def Let_def)

subsection \<open>The frequency bytes of set_speed\<close>

lemma hi_byte:
  fixes hz :: u32
  shows "uint (ucast (drop_bit 8 hz) :: u8) = uint hz div 256 mod 256"
proof -
  have "uint hz < 2 ^ 32"
    using uint_lt2p [of hz] by simp
  then have "take_bit 32 (uint hz) = uint hz"
    by (simp add: take_bit_int_eq_self)
  then have "uint (ucast (drop_bit 8 hz) :: u8) = take_bit 8 (drop_bit 8 (uint hz))"
    by (simp add: unsigned_ucast_eq unsigned_drop_bit_eq)
  then show ?thesis
    by (simp add: take_bit_eq_mod drop_bit_eq_div)
qed

lemma lo_byte:
  fixes hz :: u32
  shows "uint (ucast (hz AND 0xFF) :: u8) = uint hz mod 256"
proof -
  have "hz AND 0xFF = take_bit 8 hz"
    by (simp add: take_bit_eq_mask mask_eq_exp_minus_1)
  then have "uint (ucast (hz AND 0xFF) :: u8) = take_bit 8 (uint hz)"
    by (simp add: unsigned_ucast_eq unsigned_take_bit_eq)
  then show ?thesis
    by (simp add: take_bit_eq_mod)
qed

lemma big_endian_u16:
  fixes hz :: u32
  shows "uint (ucast (drop_bit 8 hz) :: u8) * 256 + uint (ucast (hz AND 0xFF) :: u8)
         = uint hz mod 65536"
proof -
  have "uint hz mod (256 * 256) = 256 * (uint hz div 256 mod 256) + uint hz mod 256"
    by (rule zmod_zmult2_eq) simp
  then show ?thesis
    by (simp add: hi_byte lo_byte)
qed

lemma set_speed_msg_nth:
  "set_speed_msg rpm ! 3 = ucast (drop_bit 8 (rpm_to_hz rpm))"
  "set_speed_msg rpm ! 4 = ucast (rpm_to_hz rpm AND 0xFF)"
  by (simp_all add: set_speed_msg_def set_speed_msg_init_def Let_def)

lemma uint_rpm_to_hz: "uint (rpm_to_hz rpm) = (sint rpm sdiv 60 * 100) mod 2 ^ 32"
  by (simp add: rpm_to_hz_def int_div_def uint_word_ariths uint_word_of_int mod_mult_left_eq)

lemma rpm_to_hz_3000: "rpm_to_hz 3000 = 5000"
  by (simp add: rpm_to_hz_def int_div_def signed_divide_int_def)

text \<open>
  Claim C5. \<open>set_speed\<close> divides by 60 first (truncating towards zero) and multiplies
  by 100 then, on 32 bits; the frame it writes carries the low 16 bits of the result at
  the array indices 3 (high byte) and 4 (low byte). For 3000 rpm the value is
  5000 = 0x1388 and the two bytes are 0x13, 0x88.
\<close>

theorem set_speed_frequency_bytes:
  "uint (rpm_to_hz rpm) = (sint rpm sdiv 60 * 100) mod 2 ^ 32
   \<and> uint (set_speed_msg rpm ! 3) * 256 + uint (set_speed_msg rpm ! 4)
       = uint (rpm_to_hz rpm) mod 65536
   \<and> Serial_write (set_speed_msg rpm) \<in> set (effects (modbus (set_speed rpm s)))
   \<and> rpm_to_hz 3000 = 5000 \<and> (5000 :: u32) = 0x1388
   \<and> set_speed_msg 3000 ! 3 = 0x13 \<and> set_speed_msg 3000 ! 4 = 0x88"
proof -
  have "uint (set_speed_msg rpm ! 3) * 256 + uint (set_speed_msg rpm ! 4)
        = uint (rpm_to_hz rpm) mod 65536"
    by (simp only: set_speed_msg_nth big_endian_u16)
  moreover have "Serial_write (set_speed_msg rpm) \<in> set (effects (modbus (set_speed rpm s)))"
    by (simp add: set_speed_effects)
  moreover have "set_speed_msg 3000 ! 3 = 0x13" "set_speed_msg 3000 ! 4 = 0x88"
    by (simp_all add: set_speed_msg_nth rpm_to_hz_3000)
  ultimately show ?thesis
    using uint_rpm_to_hz [of rpm] rpm_to_hz_3000 by simp
qed

text \<open>Dividing first is not multiplying first: 90 rpm gives 100, not 150.\<close>

lemma rpm_to_hz_90: "rpm_to_hz 90 = 100 \<and> int_div (90 * 100) 60 = 150"
  by (simp add: rpm_to_hz_def int_div_def signed_divide_int_def)

lemma rpm_to_hz_below_60:
  assumes "0 \<le> sint rpm" and "sint rpm \<le> 59"
  shows "rpm_to_hz rpm = 0"
  using assms by (simp add: rpm_to_hz_def int_div_def signed_divide_int_def)

text \<open>
  Claim C10. For a target of 0 to 59 rpm the division gives 0: the frequency value is 0,
  \<open>set_speed\<close> writes the frame 00 55 00 00 00 01 54 A9 FF, whose bytes at the
  indices 3 and 4 are 0x00, and it does what \<open>set_speed(0)\<close> does.
\<close>

theorem set_speed_below_60:
  assumes "0 \<le> sint rpm" and "sint rpm \<le> 59"
  shows "rpm_to_hz rpm = 0
         \<and> effects (modbus (set_speed rpm s)) =
             effects (modbus s) @
               [Dir_set, Delay 1,
                Serial_write [0x00, 0x55, 0x00, 0x00, 0x00, 0x01, 0x54, 0xA9, 0xFF],
                Delay (send_time 9 (modbus s)), Dir_clear, Delay 50]
         \<and> effects (modbus (set_speed rpm s)) = effects (modbus (set_speed 0 s))
         \<and> set_speed_msg rpm ! 3 = 0x00 \<and> set_speed_msg rpm ! 4 = 0x00
         \<and> set_speed_msg rpm = set_speed_msg 0
         \<and> set_speed rpm s = set_speed 0 s"
proof -
  have hz: "rpm_to_hz rpm = 0"
    using assms by (rule rpm_to_hz_below_60)
  have hz0: "rpm_to_hz 0 = 0"
    by (simp add: rpm_to_hz_below_60)
  have frame: "set_speed_msg rpm = [0x00, 0x55, 0x00, 0x00, 0x00, 0x01, 0x54, 0xA9, 0xFF]"
    by (simp add: set_speed_msg_def set_speed_msg_init_def hz)
  have msg: "set_speed_msg rpm = set_speed_msg 0"
    by (simp add: set_speed_msg_def hz hz0)
  have same: "set_speed rpm s = set_speed 0 s"
    by (simp add: set_speed_def msg)
  have "effects (modbus (set_speed rpm s)) =
             effects (modbus s) @
               [Dir_set, Delay 1,
                Serial_write [0x00, 0x55, 0x00, 0x00, 0x00, 0x01, 0x54, 0xA9, 0xFF],
                Delay (send_time 9 (modbus s)), Dir_clear, Delay 50]"
    by (simp only: set_speed_effects frame)
  moreover have "effects (modbus (set_speed rpm s)) = effects (modbus (set_speed 0 s))"
    by (simp only: same)
  moreover have "set_speed_msg rpm ! 3 = 0x00" "set_speed_msg rpm ! 4 = 0x00"
    by (simp_all add: set_speed_msg_nth hz)
  ultimately show ?thesis
    using hz msg same by blast
qed

theorem set_speed_below_60_witness:
  "0 \<le> sint (59 :: u32) \<and> sint (59 :: u32) \<le> 59
   \<and> rpm_to_hz 59 = 0
   \<and> effects (modbus (set_speed 59 example_a131)) =
       effects (modbus example_a131) @
         [Dir_set, Delay 1,
          Serial_write [0x00, 0x55, 0x00, 0x00, 0x00, 0x01, 0x54, 0xA9, 0xFF],
          Delay (send_time 9 (modbus example_a131)), Dir_clear, Delay 50]
   \<and> set_speed_msg 59 ! 3 = 0x00 \<and> set_speed_msg 59 ! 4 = 0x00
   \<and> set_speed_msg 59 = set_speed_msg 0
   \<and> set_speed 59 example_a131 = set_speed 0 example_a131"
proof -
  have h1: "0 \<le> sint (59 :: u32)" by simp
  have h2: "sint (59 :: u32) \<le> 59" by simp
  show ?thesis
    using h1 h2 set_speed_below_60 [OF h1 h2, of example_a131] by blast
qed

subsection \<open>Floating point: value, rounding, bounds\<close>

lemma two_powr_int:
  "(2::real) powr real_of_int e = (if 0 \<le> e then 2 ^ nat e else 1 / 2 ^ nat (- e))"
  by (simp add: powr_real_of_int inverse_eq_divide)

lemma flt_ceil_val: "flt_ceil x = \<lceil>flt_val x\<rceil>"
proof (cases x)
  case (Pair m e)
  show ?thesis
  proof (cases "0 \<le> e")
    case True
    have "flt_val x = real_of_int (m * 2 ^ nat e)"
      using True by (simp add: flt_val_def Pair two_powr_int)
    then have "\<lceil>flt_val x\<rceil> = m * 2 ^ nat e"
      by (simp only: ceiling_of_int)
    with True show ?thesis by (simp add: flt_ceil_def Pair)
  next
    case False
    have "flt_val x = - (real_of_int (- m) / real_of_int (2 ^ nat (- e)))"
      using False by (simp add: flt_val_def Pair two_powr_int)
    then have "\<lceil>flt_val x\<rceil> = - \<lfloor>real_of_int (- m) / real_of_int (2 ^ nat (- e))\<rfloor>"
      by (simp only: ceiling_def minus_minus)
    also have "\<dots> = - ((- m) div 2 ^ nat (- e))"
      by (simp only: floor_divide_of_int_eq)
    finally show ?thesis using False by (simp add: flt_ceil_def Pair)
  qed
qed

text \<open>The two literals are the doubles nearest to 1/10 and 1/100.\<close>

lemma dbl_0_1_nearest:
  "\<bar>flt_val dbl_0_1 - 1 / 10\<bar> \<le> 2 powr (- 57) \<and> 2 ^ 52 \<le> fst dbl_0_1 \<and> fst dbl_0_1 < 2 ^ 53"
  by (simp add: flt_val_def dbl_0_1_def two_powr_int powr_minus_divide)

lemma dbl_0_01_nearest:
  "\<bar>flt_val dbl_0_01 - 1 / 100\<bar> \<le> 2 powr (- 60) \<and> 2 ^ 52 \<le> fst dbl_0_01 \<and> fst dbl_0_01 < 2 ^ 53"
  by (simp add: flt_val_def dbl_0_01_def two_powr_int powr_minus_divide)

lemma round_to_fits: "nat (bitlen \<bar>fst x\<bar>) \<le> p \<Longrightarrow> round_to p x = x"
  by (cases x) (simp add: round_to_def)

lemma round_to_nonneg:
  assumes "0 \<le> fst x"
  shows "0 \<le> fst (round_to p x)"
proof (cases x)
  case (Pair m e)
  with assms have "0 \<le> m" by simp
  then have "0 \<le> sgn m * (\<bar>m\<bar> div 2 ^ k)" and "0 \<le> sgn m * (\<bar>m\<bar> div 2 ^ k + 1)" for k :: nat
    by (simp_all add: sgn_if pos_imp_zdiv_nonneg_iff)
  then show ?thesis
    using \<open>0 \<le> m\<close> by (simp add: round_to_def Pair Let_def)
qed

lemma flt_val_shift: "flt_val (m, e + int k) = real_of_int (m * 2 ^ k) * 2 powr real_of_int e"
  by (simp add: flt_val_def powr_add powr_realpow)

lemma le_div_pow2:
  fixes a m :: int
  assumes "a * 2 ^ k \<le> m"
  shows "a \<le> m div 2 ^ k"
proof -
  have "(a * 2 ^ k) div 2 ^ k \<le> m div 2 ^ k"
    using assms by (rule zdiv_mono1) simp
  then show ?thesis by simp
qed

lemma div_pow2_mult_le:
  fixes m :: int
  shows "m div 2 ^ k * 2 ^ k \<le> m"
proof -
  have "m div 2 ^ k * 2 ^ k + m mod 2 ^ k = m"
    by (rule div_mult_mod_eq)
  moreover have "0 \<le> m mod 2 ^ k"
    by simp
  ultimately show ?thesis by linarith
qed

lemma round_to_le_double:
  assumes "0 \<le> fst x" and "0 < p"
  shows "flt_val (round_to p x) \<le> 2 * flt_val x"
proof (cases x)
  case (Pair m e)
  with assms have m: "0 \<le> m" by simp
  define n where "n = nat (bitlen \<bar>m\<bar>)"
  show ?thesis
  proof (cases "n \<le> p")
    case True
    then have "round_to p x = x"
      by (simp add: round_to_fits Pair n_def)
    moreover have "0 \<le> flt_val x"
      using m by (simp add: flt_val_def Pair)
    ultimately show ?thesis by simp
  next
    case False
    define k where "k = n - p"
    define q where "q = m div 2 ^ k"
    define r where "r = m mod 2 ^ k"
    define q' where "q' = (if 2 ^ (k - 1) < r \<or> (r = 2 ^ (k - 1) \<and> odd q) then q + 1 else q)"
    have n: "p < n" using False by simp
    then have "0 < bitlen m" using m by (simp add: n_def)
    with m have mpos: "0 < m"
      by (metis bitlen_eq_zero_iff linorder_not_le dual_order.refl)
    have "2 ^ nat (bitlen m - 1) \<le> m"
      using bitlen_bounds [OF mpos] by simp
    moreover have "nat (bitlen m - 1) = (p - 1) + k"
      using n m \<open>0 < p\<close> by (simp add: n_def k_def nat_diff_distrib)
    ultimately have "2 ^ (p - 1) * 2 ^ k \<le> m"
      by (simp add: power_add)
    then have "2 ^ (p - 1) \<le> q"
      unfolding q_def by (rule le_div_pow2)
    moreover have "(1::int) \<le> 2 ^ (p - 1)"
      by simp
    ultimately have "1 \<le> q" by linarith
    then have "q' \<le> 2 * q" by (simp add: q'_def)
    then have "q' * 2 ^ k \<le> 2 * q * 2 ^ k"
      by (rule mult_right_mono) simp
    moreover have "q * 2 ^ k \<le> m"
      unfolding q_def by (rule div_pow2_mult_le)
    ultimately have "q' * 2 ^ k \<le> 2 * m"
      by linarith
    then have "real_of_int (q' * 2 ^ k) \<le> real_of_int (2 * m)"
      by (simp only: of_int_le_iff)
    then have "real_of_int (q' * 2 ^ k) * 2 powr real_of_int e \<le> real_of_int (2 * m) * 2 powr real_of_int e"
      by (rule mult_right_mono) simp
    moreover have "round_to p x = (q', e + int k)"
    proof -
      have "\<bar>m\<bar> = m" and "sgn m = 1"
        using mpos by simp_all
      moreover have "\<not> nat (bitlen m) \<le> p"
        using False m by (simp add: n_def)
      ultimately show ?thesis
        by (simp add: round_to_def Pair Let_def q'_def q_def r_def k_def n_def)
    qed
    ultimately show ?thesis
      by (simp add: flt_val_shift) (simp add: flt_val_def Pair)
  qed
qed

text \<open>
  \<open>round_to\<close> is rounding to nearest, ties to even: the result is at most half a unit
  of the last kept place away from the argument, and its last kept bit is even when it
  is exactly half a unit away.
\<close>

lemma round_to_nearest:
  assumes "0 \<le> m" and "round_to p (m, e) = (m', e')"
  shows "e \<le> e'"
    and "2 * \<bar>m' * 2 ^ nat (e' - e) - m\<bar> \<le> 2 ^ nat (e' - e)"
    and "2 * \<bar>m' * 2 ^ nat (e' - e) - m\<bar> = 2 ^ nat (e' - e) \<Longrightarrow> even m'"
proof -
  define n where "n = nat (bitlen m)"
  define k where "k = n - p"
  define q where "q = m div 2 ^ k"
  define r where "r = m mod 2 ^ k"
  define h :: int where "h = 2 ^ (k - 1)"
  have split: "m = q * 2 ^ k + r"
    using div_mult_mod_eq [of m "2 ^ k"] by (simp add: q_def r_def)
  have r0: "0 \<le> r"
    by (simp add: r_def)
  have all: "e \<le> e' \<and> 2 * \<bar>m' * 2 ^ nat (e' - e) - m\<bar> \<le> 2 ^ nat (e' - e)
      \<and> (2 * \<bar>m' * 2 ^ nat (e' - e) - m\<bar> = 2 ^ nat (e' - e) \<longrightarrow> even m')"
  proof (cases "n \<le> p")
    case True
    then have "round_to p (m, e) = (m, e)"
      using assms(1) by (simp add: round_to_fits n_def)
    with assms(2) show ?thesis by simp
  next
    case False
    then have k: "0 < k" by (simp add: k_def)
    then have hh: "2 * h = 2 ^ k"
      by (cases k) (simp_all add: h_def)
    have "0 < bitlen m" using False by (simp add: n_def)
    with assms(1) have mpos: "0 < m"
      by (metis bitlen_eq_zero_iff linorder_not_le dual_order.refl)
    have "\<bar>m\<bar> = m" and "sgn m = 1"
      using mpos by simp_all
    moreover have "\<not> nat (bitlen m) \<le> p"
      using False by (simp add: n_def)
    ultimately have "round_to p (m, e) =
        ((if h < r \<or> (r = h \<and> odd q) then q + 1 else q), e + int k)"
      by (simp add: round_to_def Let_def q_def r_def k_def n_def h_def)
    with assms(2) have m': "m' = (if h < r \<or> (r = h \<and> odd q) then q + 1 else q)"
      and e': "e' = e + int k" by simp_all
    have nk: "nat (e' - e) = k" by (simp add: e')
    show ?thesis
    proof (cases "h < r \<or> (r = h \<and> odd q)")
      case True
      then have "m' = q + 1"
        by (simp add: m')
      then have "m' * 2 ^ k - m = 2 ^ k - r"
        by (simp add: split algebra_simps)
      then have "m' * 2 ^ k - m = 2 * h - r"
        by (simp only: hh)
      moreover have "r < 2 * h"
        unfolding hh r_def by simp
      ultimately show ?thesis
        using True r0 by (auto simp: nk e' hh [symmetric] m')
    next
      case False
      then have "m' * 2 ^ k - m = - r"
        by (simp add: m' split)
      then show ?thesis
        using False r0 by (auto simp: nk e' hh [symmetric] m')
    qed
  qed
  from all show "e \<le> e'" by simp
  from all show "2 * \<bar>m' * 2 ^ nat (e' - e) - m\<bar> \<le> 2 ^ nat (e' - e)" by simp
  from all show "2 * \<bar>m' * 2 ^ nat (e' - e) - m\<bar> = 2 ^ nat (e' - e) \<Longrightarrow> even m'" by simp
qed

lemma flt_val_nonneg: "0 \<le> fst x \<Longrightarrow> 0 \<le> flt_val x"
  by (simp add: flt_val_def)

lemma flt_val_product: "flt_val (fst a * fst b, snd a + snd b) = flt_val a * flt_val b"
  by (simp add: flt_val_def powr_add)

lemma flt_val_align:
  assumes "e \<le> snd a"
  shows "flt_val (fst a * 2 ^ nat (snd a - e), e) = flt_val a"
proof -
  have "snd a = e + int (nat (snd a - e))"
    using assms by simp
  then have "flt_val a = flt_val (fst a, e + int (nat (snd a - e)))"
    by simp
  then show ?thesis
    by (simp only: flt_val_shift) (simp add: flt_val_def)
qed

lemma flt_val_sum:
  "flt_val (fst a * 2 ^ nat (snd a - e) + fst b * 2 ^ nat (snd b - e), e)
   = flt_val (fst a * 2 ^ nat (snd a - e), e) + flt_val (fst b * 2 ^ nat (snd b - e), e)"
  by (simp add: flt_val_def algebra_simps)

lemma flt_mult_le:
  assumes "0 \<le> fst a" and "0 \<le> fst b" and "0 < p"
  shows "flt_val (flt_mult p a b) \<le> 2 * (flt_val a * flt_val b)"
    and "0 \<le> fst (flt_mult p a b)"
proof -
  have nn: "0 \<le> fst (fst a * fst b, snd a + snd b)"
    using assms by simp
  from round_to_le_double [OF nn \<open>0 < p\<close>]
  show "flt_val (flt_mult p a b) \<le> 2 * (flt_val a * flt_val b)"
    by (simp add: flt_mult_def flt_val_product)
  from round_to_nonneg [OF nn]
  show "0 \<le> fst (flt_mult p a b)"
    by (simp add: flt_mult_def)
qed

lemma flt_add_le:
  assumes "0 \<le> fst a" and "0 \<le> fst b" and "0 < p"
  shows "flt_val (flt_add p a b) \<le> 2 * (flt_val a + flt_val b)"
    and "0 \<le> fst (flt_add p a b)"
proof -
  define e where "e = min (snd a) (snd b)"
  have nn: "0 \<le> fst (fst a * 2 ^ nat (snd a - e) + fst b * 2 ^ nat (snd b - e), e)"
    using assms by simp
  have "e \<le> snd a" and "e \<le> snd b"
    by (simp_all add: e_def)
  then have "flt_val (fst a * 2 ^ nat (snd a - e) + fst b * 2 ^ nat (snd b - e), e)
             = flt_val a + flt_val b"
    by (simp only: flt_val_sum flt_val_align)
  with round_to_le_double [OF nn \<open>0 < p\<close>]
  show "flt_val (flt_add p a b) \<le> 2 * (flt_val a + flt_val b)"
    by (simp add: flt_add_def e_def Let_def)
  from round_to_nonneg [OF nn]
  show "0 \<le> fst (flt_add p a b)"
    by (simp add: flt_add_def e_def Let_def)
qed

lemma flt_of_int_le:
  assumes "0 \<le> k" and "0 < p"
  shows "flt_val (flt_of_int p k) \<le> 2 * real_of_int k"
    and "0 \<le> fst (flt_of_int p k)"
proof -
  have nn: "0 \<le> fst (k, 0::int)"
    using assms by simp
  from round_to_le_double [OF nn \<open>0 < p\<close>]
  show "flt_val (flt_of_int p k) \<le> 2 * real_of_int k"
    by (simp add: flt_of_int_def flt_val_def)
  from round_to_nonneg [OF nn]
  show "0 \<le> fst (flt_of_int p k)"
    by (simp add: flt_of_int_def)
qed

lemma dbl_0_01_le: "flt_val dbl_0_01 \<le> 1 / 99" and dbl_0_01_nonneg: "0 \<le> fst dbl_0_01"
  by (simp_all add: flt_val_def dbl_0_01_def two_powr_int powr_minus_divide)

lemma whole_25:
  "flt_add 53 (flt_of_int 53 25) (flt_mult 53 (flt_of_int 53 0) dbl_0_1) = (7036874417766400, - 48)"
  by code_simp

lemma flt_val_whole_25: "flt_val (7036874417766400, - 48) = 25"
  by (simp add: flt_val_def two_powr_int powr_minus_divide)

lemma flt_trunc_val:
  assumes "0 \<le> fst x"
  shows "flt_trunc x = \<lfloor>flt_val x\<rfloor>"
proof (cases x)
  case (Pair m e)
  with assms have m: "0 \<le> m" by simp
  show ?thesis
  proof (cases "0 \<le> e")
    case True
    have "flt_val x = real_of_int (m * 2 ^ nat e)"
      using True by (simp add: flt_val_def Pair two_powr_int)
    then have "\<lfloor>flt_val x\<rfloor> = m * 2 ^ nat e"
      by (simp only: floor_of_int)
    with True show ?thesis by (simp add: flt_trunc_def Pair)
  next
    case False
    have "flt_val x = real_of_int m / real_of_int (2 ^ nat (- e))"
      using False by (simp add: flt_val_def Pair two_powr_int)
    then have "\<lfloor>flt_val x\<rfloor> = m div 2 ^ nat (- e)"
      by (simp only: floor_divide_of_int_eq)
    then show ?thesis using False m by (cases "m = 0") (simp_all add: flt_trunc_def Pair)
  qed
qed

lemma small_hz_to_rpm:
  fixes hz :: u32
  assumes "uint hz < 100"
  shows "hz_to_rpm hz = 0"
proof -
  have "uint (hz div 100) = uint hz div 100"
    by (simp add: uint_div)
  with assms have "uint (hz div 100) = 0"
    by simp
  then have "hz div 100 = 0"
    by (simp only: uint_0_iff)
  then show ?thesis
    by (simp add: hz_to_rpm_def)
qed

lemma decode_hz_below_100:
  fixes d6 :: u8
  shows "uint (decode_hz [b0, b1, 0, 0, 2, 5, 0, d6, b8, b9, b10, b11, b12]) < 100"
proof -
  define k where "k = uint d6"
  define t7 where "t7 = flt_mult 53 (flt_of_int 53 k) dbl_0_01"
  define D where "D = flt_add 53 (7036874417766400, - 48) t7"
  have k: "0 \<le> k" "k \<le> 255"
    using uint_lt2p [of d6] by (simp_all add: k_def)
  have p: "(0::nat) < 53" by simp
  note a = flt_of_int_le [OF k(1) p]
  have "flt_val (flt_of_int 53 k) \<le> 510"
    using a(1) k(2) by simp
  then have "flt_val (flt_of_int 53 k) * flt_val dbl_0_01 \<le> 510 * (1 / 99)"
    using dbl_0_01_le flt_val_nonneg [OF dbl_0_01_nonneg]
    by (intro mult_mono) simp_all
  with flt_mult_le [OF a(2) dbl_0_01_nonneg p]
  have t7: "flt_val t7 \<le> 2 * (510 * (1 / 99))" "0 \<le> fst t7"
    by (simp_all add: t7_def)
  have B: "0 \<le> fst (7036874417766400 :: int, - 48 :: int)"
    by simp
  from flt_add_le [OF B t7(2) p] t7(1)
  have D: "flt_val D < 100" "0 \<le> fst D"
    by (simp_all add: D_def flt_val_whole_25)
  have "0 \<le> flt_val D"
    using D(2) by (rule flt_val_nonneg)
  with D have trunc: "0 \<le> flt_trunc D" "flt_trunc D < 100"
    by (simp_all add: flt_trunc_val floor_less_iff)
  have "decode_hz [b0, b1, 0, 0, 2, 5, 0, d6, b8, b9, b10, b11, b12] = word_of_int (flt_trunc D)"
    by (simp add: decode_hz_def Let_def whole_25 D_def t7_def k_def)
  then have "uint (decode_hz [b0, b1, 0, 0, 2, 5, 0, d6, b8, b9, b10, b11, b12])
             = flt_trunc D mod 2 ^ 32"
    by (simp add: uint_word_of_int)
  with trunc show ?thesis
    by simp
qed

text \<open>
  The relative error of rounding to \<open>p\<close> bits is at most \<open>2 ^ - p\<close>, for either sign;
  so is that of the product of 9 and a floating-point number.
\<close>

lemma round_to_neg:
  "round_to p (- m, e) = (- fst (round_to p (m, e)), snd (round_to p (m, e)))"
  by (simp add: round_to_def Let_def)

lemma round_to_shift:
  assumes "0 \<le> m" and "round_to p (m, e) = (m', e')"
  shows "nat (e' - e) = nat (bitlen m) - p"
proof (cases "nat (bitlen m) \<le> p")
  case True
  with assms show ?thesis
    by (simp add: round_to_fits)
next
  case False
  with assms have "e' = e + int (nat (bitlen m) - p)"
    by (simp add: round_to_def Let_def)
  then show ?thesis by simp
qed

lemma round_to_rel_int:
  assumes "0 \<le> m" and "0 < p" and "round_to p (m, e) = (m', e')"
  shows "2 ^ p * \<bar>m' * 2 ^ nat (e' - e) - m\<bar> \<le> m"
proof -
  define n where "n = nat (bitlen m)"
  define d where "d = \<bar>m' * 2 ^ nat (e' - e) - m\<bar>"
  have K: "nat (e' - e) = n - p"
    unfolding n_def using assms(1,3) by (rule round_to_shift)
  have half: "2 * d \<le> 2 ^ (n - p)"
    using round_to_nearest(2) [OF assms(1,3)] by (simp add: d_def K)
  show ?thesis
  proof (cases "n \<le> p")
    case True
    with half have "2 * d \<le> 1" by simp
    moreover have "0 \<le> d" by (simp add: d_def)
    ultimately have "d = 0" by linarith
    with assms(1) show ?thesis by (simp add: d_def)
  next
    case False
    then have "0 < bitlen m" by (simp add: n_def)
    with assms(1) have mpos: "0 < m"
      by (metis bitlen_eq_zero_iff linorder_not_le dual_order.refl)
    have "2 ^ nat (bitlen m - 1) \<le> m"
      using bitlen_bounds [OF mpos] by simp
    moreover have "nat (bitlen m - 1) = p + (n - p) - 1"
      using False by (simp add: n_def nat_diff_distrib)
    ultimately have low: "(2::int) ^ (p + (n - p) - 1) \<le> m" by simp
    have "(2::int) ^ p * (2 * d) \<le> 2 ^ p * 2 ^ (n - p)"
      using half by (intro mult_left_mono) simp_all
    also have "\<dots> = 2 * 2 ^ (p + (n - p) - 1)"
      using assms(2) by (cases p) (simp_all add: power_add)
    finally have "2 ^ p * d \<le> 2 ^ (p + (n - p) - 1)" by simp
    with low show ?thesis by (simp add: d_def)
  qed
qed

lemma flt_val_neg: "flt_val (- m, e) = - flt_val (m, e)"
  by (simp add: flt_val_def)

lemma two_powr_minus_nat: "(2::real) powr (- real p) = 1 / 2 ^ p"
  by (simp add: powr_minus_divide powr_realpow)

lemma round_to_rel_error_nonneg:
  assumes "0 \<le> m" and "0 < p"
  shows "\<bar>flt_val (round_to p (m, e)) - flt_val (m, e)\<bar> \<le> \<bar>flt_val (m, e)\<bar> * 2 powr (- real p)"
proof -
  obtain m' e' where r: "round_to p (m, e) = (m', e')"
    by (cases "round_to p (m, e)")
  define K where "K = nat (e' - e)"
  have "e \<le> e'"
    using assms(1) r by (rule round_to_nearest(1))
  then have e': "e' = e + int K"
    by (simp add: K_def)
  have int_bound: "2 ^ p * \<bar>m' * 2 ^ K - m\<bar> \<le> m"
    unfolding K_def using assms r by (rule round_to_rel_int)
  have "flt_val (m', e') - flt_val (m, e)
        = real_of_int (m' * 2 ^ K - m) * 2 powr real_of_int e"
    by (simp add: e' flt_val_shift) (simp add: flt_val_def algebra_simps)
  then have "\<bar>flt_val (m', e') - flt_val (m, e)\<bar>
        = real_of_int \<bar>m' * 2 ^ K - m\<bar> * 2 powr real_of_int e"
    by (simp add: abs_mult)
  moreover have "real_of_int (2 ^ p * \<bar>m' * 2 ^ K - m\<bar>) \<le> real_of_int m"
    using int_bound by (simp only: of_int_le_iff)
  then have "real_of_int \<bar>m' * 2 ^ K - m\<bar> \<le> real_of_int m / 2 ^ p"
    by (simp add: field_simps)
  then have "real_of_int \<bar>m' * 2 ^ K - m\<bar> * 2 powr real_of_int e
        \<le> real_of_int m / 2 ^ p * 2 powr real_of_int e"
    by (rule mult_right_mono) simp
  moreover have "\<bar>flt_val (m, e)\<bar> = real_of_int m * 2 powr real_of_int e"
    using assms(1) by (simp add: flt_val_def abs_mult)
  ultimately show ?thesis
    by (simp add: r two_powr_minus_nat)
qed

lemma round_to_rel_error:
  assumes "0 < p"
  shows "\<bar>flt_val (round_to p x) - flt_val x\<bar> \<le> \<bar>flt_val x\<bar> * 2 powr (- real p)"
proof (cases x)
  case (Pair m e)
  show ?thesis
  proof (cases "0 \<le> m")
    case True
    then show ?thesis
      unfolding Pair using assms by (rule round_to_rel_error_nonneg)
  next
    case False
    then have "0 \<le> - m" by simp
    from round_to_rel_error_nonneg [OF this assms, of e]
    have "\<bar>flt_val (round_to p (- m, e)) - flt_val (- m, e)\<bar>
          \<le> \<bar>flt_val (- m, e)\<bar> * 2 powr (- real p)" .
    then have 1: "\<bar>flt_val (round_to p (- m, e)) + flt_val (m, e)\<bar>
          \<le> \<bar>flt_val (m, e)\<bar> * 2 powr (- real p)"
      by (simp add: flt_val_neg)
    have "round_to p (m, e) = (- fst (round_to p (- m, e)), snd (round_to p (- m, e)))"
      using round_to_neg [of p "- m" e] by simp
    then have "flt_val (round_to p (m, e)) = - flt_val (round_to p (- m, e))"
      by (simp add: flt_val_def)
    then have "\<bar>flt_val (round_to p (m, e)) - flt_val (m, e)\<bar>
          = \<bar>- (flt_val (round_to p (- m, e)) + flt_val (m, e))\<bar>"
      by simp
    also have "\<dots> = \<bar>flt_val (round_to p (- m, e)) + flt_val (m, e)\<bar>"
      by (rule abs_minus_cancel)
    finally show ?thesis
      using 1 by (simp add: Pair)
  qed
qed

lemma bitlen_9: "bitlen 9 = 4"
  by code_simp

lemma nine_times:
  assumes "4 \<le> p"
  shows "flt_mult p (flt_of_int p 9) dt = round_to p (9 * fst dt, snd dt)"
proof -
  have "flt_of_int p 9 = (9, 0)"
    using assms by (simp add: flt_of_int_def round_to_fits bitlen_9)
  then show ?thesis
    by (simp add: flt_mult_def)
qed

lemma flt_val_nine: "flt_val (9 * fst dt, snd dt) = 9 * flt_val dt"
  by (simp add: flt_val_def)

lemma send_product_error:
  assumes "4 \<le> p"
  shows "\<bar>flt_val (flt_mult p (flt_of_int p 9) dt) - 9 * flt_val dt\<bar>
         \<le> \<bar>9 * flt_val dt\<bar> * 2 powr (- real p)"
proof -
  have "0 < p" using assms by simp
  from round_to_rel_error [OF this, of "(9 * fst dt, snd dt)"]
  show ?thesis
    by (simp only: nine_times [OF assms] flt_val_nine)
qed

subsection \<open>The loops of report_speed\<close>

lemma serial_getc_Inr:
  "serial_getc m = Inr (c, m') \<Longrightarrow>
     effects m' = effects m @ [Getc c] \<and> getc_replies m = c # getc_replies m'"
  by (auto simp: serial_getc_def split: list.splits)

lemma serial_getc_Inl:
  "serial_getc m = Inl (r, m') \<Longrightarrow> r = Getc_blocks \<and> m' = m"
  by (auto simp: serial_getc_def split: list.splits)

lemma serial_readable_Inr:
  "serial_readable m = Inr (b, m') \<Longrightarrow> effects m' = effects m @ [Readable b]"
  by (auto simp: serial_readable_def split: list.splits)

lemma serial_readable_Inl:
  "serial_readable m = Inl (r, m') \<Longrightarrow> r = Readable_unanswered \<and> m' = m"
  by (auto simp: serial_readable_def split: list.splits)

lemma discards_Cons: "discards (d # ds) = Readable True # Getc d # discards ds"
  by (simp add: discards_def)

lemma discards_Nil: "discards [] = []"
  by (simp add: discards_def)

lemma clear_rx_Inr:
  "clear_rx m = Inr m' \<Longrightarrow> \<exists>ds. effects m' = effects m @ discards ds @ [Readable False]"
proof (induction m rule: clear_rx.induct)
  case (1 m)
  show ?case
  proof (cases "serial_readable m")
    case (Inl a)
    with "1.prems" show ?thesis by (simp add: clear_rx.simps [of m])
  next
    case (Inr bm)
    obtain b m1 where bm: "bm = (b, m1)" by (cases bm)
    note r = serial_readable_Inr [OF Inr [unfolded bm]]
    show ?thesis
    proof (cases b)
      case False
      with "1.prems" Inr bm have "m' = m1" by (simp add: clear_rx.simps [of m])
      with r False show ?thesis
        by (intro exI [of _ "[]"]) (simp add: discards_Nil)
    next
      case True
      show ?thesis
      proof (cases "serial_getc m1")
        case (Inl a)
        with "1.prems" Inr bm True show ?thesis by (simp add: clear_rx.simps [of m])
      next
        case (Inr cm)
        obtain c m2 where cm: "cm = (c, m2)" by (cases cm)
        note g = serial_getc_Inr [OF Inr [unfolded cm]]
        from "1.prems" \<open>serial_readable m = Inr bm\<close> bm True Inr cm
        have "clear_rx m2 = Inr m'" by (simp add: clear_rx.simps [of m])
        from "1.IH" [OF \<open>serial_readable m = Inr bm\<close> bm [symmetric] True Inr cm [symmetric] this]
        obtain ds where ds: "effects m' = effects m2 @ discards ds @ [Readable False]"
          by blast
        show ?thesis
          using ds g r True
          by (intro exI [of _ "c # ds"]) (simp add: discards_Cons)
      qed
    qed
  qed
qed

lemma clear_rx_Inl:
  "clear_rx m = Inl (r, m') \<Longrightarrow>
     \<exists>ds. effects m' = effects m @ discards ds @ (if r = Getc_blocks then [Readable True] else [])"
proof (induction m rule: clear_rx.induct)
  case (1 m)
  show ?case
  proof (cases "serial_readable m")
    case (Inl a)
    with "1.prems" have "serial_readable m = Inl (r, m')"
      by (simp add: clear_rx.simps [of m])
    from serial_readable_Inl [OF this] show ?thesis
      by (intro exI [of _ "[]"]) (simp add: discards_Nil)
  next
    case (Inr bm)
    obtain b m1 where bm: "bm = (b, m1)" by (cases bm)
    note r = serial_readable_Inr [OF Inr [unfolded bm]]
    show ?thesis
    proof (cases b)
      case False
      with "1.prems" Inr bm show ?thesis by (simp add: clear_rx.simps [of m])
    next
      case True
      show ?thesis
      proof (cases "serial_getc m1")
        case (Inl a)
        with "1.prems" Inr bm True have "serial_getc m1 = Inl (r, m')"
          by (simp add: clear_rx.simps [of m])
        from serial_getc_Inl [OF this] r True show ?thesis
          by (intro exI [of _ "[]"]) (simp add: discards_Nil)
      next
        case (Inr cm)
        obtain c m2 where cm: "cm = (c, m2)" by (cases cm)
        note g = serial_getc_Inr [OF Inr [unfolded cm]]
        from "1.prems" \<open>serial_readable m = Inr bm\<close> bm True Inr cm
        have "clear_rx m2 = Inl (r, m')" by (simp add: clear_rx.simps [of m])
        from "1.IH" [OF \<open>serial_readable m = Inr bm\<close> bm [symmetric] True Inr cm [symmetric] this]
        obtain ds where ds: "effects m' = effects m2 @ discards ds @
            (if r = Getc_blocks then [Readable True] else [])" by blast
        show ?thesis
          using ds g r True
          by (intro exI [of _ "c # ds"]) (simp add: discards_Cons)
      qed
    qed
  qed
qed

lemma read_answer_Inr:
  "read_answer i speed m = Inr (speed', m') \<Longrightarrow> i \<le> 13 \<Longrightarrow> length speed = 13 \<Longrightarrow>
     \<exists>fr. length fr = 13 - i \<and> effects m' = effects m @ map Getc fr
          \<and> speed' = take i speed @ fr"
proof (induction i speed m rule: read_answer.induct)
  case (1 i speed m)
  show ?case
  proof (cases "i < 13")
    case False
    with "1.prems" show ?thesis by (simp add: read_answer.simps [of i])
  next
    case True
    show ?thesis
    proof (cases "serial_getc m")
      case (Inl a)
      with "1.prems" True show ?thesis by (simp add: read_answer.simps [of i])
    next
      case (Inr cm)
      obtain c m1 where cm: "cm = (c, m1)" by (cases cm)
      note g = serial_getc_Inr [OF Inr [unfolded cm]]
      from "1.prems" True Inr cm
      have run: "read_answer (i + 1) (speed[i := c]) m1 = Inr (speed', m')"
        by (simp add: read_answer.simps [of i])
      from "1.IH" [OF True Inr cm [symmetric] run] True "1.prems"
      obtain fr where fr: "length fr = 13 - (i + 1)" "effects m' = effects m1 @ map Getc fr"
        "speed' = take (i + 1) (speed[i := c]) @ fr" by auto
      have "take (i + 1) (speed[i := c]) = take i speed @ [c]"
        using True "1.prems" by (simp add: take_Suc_conv_app_nth)
      with fr g True show ?thesis
        by (intro exI [of _ "c # fr"]) simp
    qed
  qed
qed

lemma read_answer_Inl:
  "read_answer i speed m = Inl (r, m') \<Longrightarrow>
     \<exists>fr. length fr < 13 - i \<and> effects m' = effects m @ map Getc fr \<and> r = Getc_blocks"
proof (induction i speed m rule: read_answer.induct)
  case (1 i speed m)
  show ?case
  proof (cases "i < 13")
    case False
    with "1.prems" show ?thesis by (simp add: read_answer.simps [of i])
  next
    case True
    show ?thesis
    proof (cases "serial_getc m")
      case (Inl a)
      with "1.prems" True have "serial_getc m = Inl (r, m')"
        by (simp add: read_answer.simps [of i])
      from serial_getc_Inl [OF this] True show ?thesis
        by (intro exI [of _ "[]"]) simp
    next
      case (Inr cm)
      obtain c m1 where cm: "cm = (c, m1)" by (cases cm)
      note g = serial_getc_Inr [OF Inr [unfolded cm]]
      from "1.prems" True Inr cm
      have run: "read_answer (i + 1) (speed[i := c]) m1 = Inl (r, m')"
        by (simp add: read_answer.simps [of i])
      from "1.IH" [OF True Inr cm [symmetric] run]
      obtain fr where fr: "length fr < 13 - (i + 1)" "effects m' = effects m1 @ map Getc fr"
        "r = Getc_blocks" by auto
      with g True show ?thesis
        by (intro exI [of _ "c # fr"]) auto
    qed
  qed
qed

lemma clear_rx_run:
  "readable_replies m = replicate (length ds) True @ False # bs \<Longrightarrow>
   getc_replies m = ds @ rest \<Longrightarrow>
   clear_rx m = Inr (m\<lparr>effects := effects m @ discards ds @ [Readable False],
                        readable_replies := bs, getc_replies := rest\<rparr>)"
proof (induction ds arbitrary: m)
  case Nil
  then show ?case
    by (cases m) (simp add: clear_rx.simps serial_readable_def discards_Nil)
next
  case (Cons d ds)
  define m2 where "m2 = m\<lparr>effects := effects m @ [Readable True, Getc d],
                            readable_replies := replicate (length ds) True @ False # bs,
                            getc_replies := ds @ rest\<rparr>"
  have "clear_rx m = clear_rx m2"
    using Cons.prems
    by (subst clear_rx.simps, cases m) (simp add: serial_readable_def serial_getc_def m2_def)
  moreover have "readable_replies m2 = replicate (length ds) True @ False # bs"
    and "getc_replies m2 = ds @ rest"
    by (simp_all add: m2_def)
  then have "clear_rx m2 = Inr (m2\<lparr>effects := effects m2 @ discards ds @ [Readable False],
                        readable_replies := bs, getc_replies := rest\<rparr>)"
    by (rule Cons.IH)
  ultimately show ?case
    by (cases m) (simp add: m2_def discards_Cons)
qed

lemma read_answer_run:
  "getc_replies m = fr @ rest \<Longrightarrow> length fr = 13 - i \<Longrightarrow> i \<le> 13 \<Longrightarrow> length speed = 13 \<Longrightarrow>
   read_answer i speed m =
     Inr (take i speed @ fr, m\<lparr>effects := effects m @ map Getc fr, getc_replies := rest\<rparr>)"
proof (induction fr arbitrary: i speed m)
  case Nil
  then show ?case
    by (cases m) (simp add: read_answer.simps)
next
  case (Cons c fr)
  define m1 where "m1 = m\<lparr>effects := effects m @ [Getc c], getc_replies := fr @ rest\<rparr>"
  from Cons.prems have i: "i < 13" by simp
  then have "read_answer i speed m = read_answer (i + 1) (speed[i := c]) m1"
    using Cons.prems
    by (subst read_answer.simps, cases m) (simp add: serial_getc_def m1_def)
  moreover have "read_answer (i + 1) (speed[i := c]) m1 =
     Inr (take (i + 1) (speed[i := c]) @ fr,
          m1\<lparr>effects := effects m1 @ map Getc fr, getc_replies := rest\<rparr>)"
    using Cons.prems i by (intro Cons.IH) (simp_all add: m1_def)
  moreover have "take (i + 1) (speed[i := c]) = take i speed @ [c]"
    using i Cons.prems by (simp add: take_Suc_conv_app_nth)
  ultimately show ?case
    by (cases m) (simp add: m1_def)
qed

lemma report_speed_run:
  assumes "readable_replies (modbus s) = replicate (length ds) True @ False # bs"
    and "getc_replies (modbus s) = ds @ fr @ rest"
    and "length fr = 13"
  shows "report_speed s =
     Inr (s\<lparr>modbus := (modbus s)\<lparr>effects := effects (modbus s) @ discards ds @ [Readable False]
                                   @ map Getc fr @ [Printf_rpm (hz_to_rpm (decode_hz fr))],
                                 readable_replies := bs, getc_replies := rest\<rparr>\<rparr>)"
proof -
  define m1 where "m1 = (modbus s)\<lparr>effects := effects (modbus s) @ discards ds @ [Readable False],
                        readable_replies := bs, getc_replies := fr @ rest\<rparr>"
  have c: "clear_rx (modbus s) = Inr m1"
    unfolding m1_def using assms(1,2) by (rule clear_rx_run)
  have "read_answer 0 speed_init m1 =
     Inr (take 0 speed_init @ fr, m1\<lparr>effects := effects m1 @ map Getc fr, getc_replies := rest\<rparr>)"
    using assms(3) by (intro read_answer_run) (simp_all add: m1_def speed_init_def)
  with c show ?thesis
    by (cases s, cases "modbus s")
       (simp add: report_speed_def Let_def kernel_printf_rpm_def m1_def)
qed

lemma report_speed_example: "report_speed example_a131 = Inr example_reported"
proof -
  have "uint (decode_hz status_00250) < 100"
    unfolding status_00250_def by (rule decode_hz_below_100)
  then have rpm: "hz_to_rpm (decode_hz status_00250) = 0"
    by (rule small_hz_to_rpm)
  have "readable_replies (modbus example_a131)
        = replicate (length [0x12, 0xFF :: u8]) True @ False # []"
    by (simp add: example_a131_def example_modbus_def)
  moreover have "getc_replies (modbus example_a131) = [0x12, 0xFF] @ status_00250 @ []"
    by (simp add: example_a131_def example_modbus_def)
  moreover have "length status_00250 = 13"
    by (simp add: status_00250_def)
  ultimately have "report_speed example_a131 =
     Inr (example_a131\<lparr>modbus := (modbus example_a131)
       \<lparr>effects := effects (modbus example_a131) @ discards [0x12, 0xFF] @ [Readable False]
                     @ map Getc status_00250
                     @ [Printf_rpm (hz_to_rpm (decode_hz status_00250))],
        readable_replies := [], getc_replies := []\<rparr>\<rparr>)"
    by (rule report_speed_run)
  then show ?thesis
    by (simp add: rpm example_reported_def) (simp add: example_a131_def example_modbus_def)
qed

subsection \<open>Order of the effects of report_speed\<close>

text \<open>
  Claim C7. In every execution of \<open>report_speed\<close> the receive buffer is cleared first:
  the events are pairs of \<open>readable()\<close> answering true and a \<open>getc()\<close> that discards
  a byte, then \<open>readable()\<close> answering false, and only then the 13 reads of the status
  frame, followed by the report. An execution that does not return has a prefix of this
  sequence: it stops inside the clearing loop, or after fewer than 13 reads of the frame.
\<close>

theorem report_speed_clears_before_reading:
  "case report_speed s of
     Inr s' \<Rightarrow>
       \<exists>ds fr. length fr = 13 \<and>
         effects (modbus s') =
           effects (modbus s) @ discards ds @ [Readable False] @ map Getc fr
             @ [Printf_rpm (hz_to_rpm (decode_hz fr))]
   | Inl (r, m') \<Rightarrow>
       \<exists>ds fr. length fr < 13 \<and>
         (r = Readable_unanswered \<and> effects m' = effects (modbus s) @ discards ds
          \<or> r = Getc_blocks \<and> effects m' = effects (modbus s) @ discards ds @ [Readable True]
          \<or> r = Getc_blocks \<and>
              effects m' = effects (modbus s) @ discards ds @ [Readable False] @ map Getc fr)"
proof (cases "clear_rx (modbus s)")
  case (Inl rm)
  obtain r m' where rm: "rm = (r, m')" by (cases rm)
  from clear_rx_Inl [OF Inl [unfolded rm]]
  obtain ds where ds: "effects m' = effects (modbus s) @ discards ds @
      (if r = Getc_blocks then [Readable True] else [])" by blast
  have "r = Readable_unanswered \<and> effects m' = effects (modbus s) @ discards ds
        \<or> r = Getc_blocks \<and> effects m' = effects (modbus s) @ discards ds @ [Readable True]"
    using ds by (cases r) simp_all
  then have "\<exists>ds fr. length fr < 13 \<and>
         (r = Readable_unanswered \<and> effects m' = effects (modbus s) @ discards ds
          \<or> r = Getc_blocks \<and> effects m' = effects (modbus s) @ discards ds @ [Readable True]
          \<or> r = Getc_blocks \<and>
              effects m' = effects (modbus s) @ discards ds @ [Readable False] @ map Getc fr)"
    by (intro exI [of _ ds] exI [of _ "[]"]) auto
  then show ?thesis
    by (simp add: report_speed_def Inl rm)
next
  case (Inr m1)
  from clear_rx_Inr [OF Inr]
  obtain ds where ds: "effects m1 = effects (modbus s) @ discards ds @ [Readable False]"
    by blast
  show ?thesis
  proof (cases "read_answer 0 speed_init m1")
    case (Inl rm)
    obtain r m' where rm: "rm = (r, m')" by (cases rm)
    from read_answer_Inl [OF Inl [unfolded rm]]
    obtain fr where fr: "length fr < 13" "effects m' = effects m1 @ map Getc fr" "r = Getc_blocks"
      by auto
    have "\<exists>ds fr. length fr < 13 \<and>
         (r = Readable_unanswered \<and> effects m' = effects (modbus s) @ discards ds
          \<or> r = Getc_blocks \<and> effects m' = effects (modbus s) @ discards ds @ [Readable True]
          \<or> r = Getc_blocks \<and>
              effects m' = effects (modbus s) @ discards ds @ [Readable False] @ map Getc fr)"
      using fr ds by (intro exI [of _ ds] exI [of _ fr]) simp
    then show ?thesis
      by (simp add: report_speed_def Inr Inl rm)
  next
    case (Inr sm)
    obtain speed m2 where sm: "sm = (speed, m2)" by (cases sm)
    from read_answer_Inr [OF Inr [unfolded sm]]
    obtain fr where fr: "length fr = 13" "effects m2 = effects m1 @ map Getc fr" "speed = fr"
      by (auto simp: speed_init_def)
    have "\<exists>ds fr. length fr = 13 \<and>
         effects m2 @ [Printf_rpm (hz_to_rpm (decode_hz speed))] =
           effects (modbus s) @ discards ds @ [Readable False] @ map Getc fr
             @ [Printf_rpm (hz_to_rpm (decode_hz fr))]"
      using fr ds by (intro exI [of _ ds] exI [of _ fr]) simp
    then show ?thesis
      by (simp add: report_speed_def \<open>clear_rx (modbus s) = Inr m1\<close> Inr sm Let_def
          kernel_printf_rpm_def)
  qed
qed

text \<open>The example run returns, with two bytes discarded before the frame is read.\<close>

theorem report_speed_clears_before_reading_witness:
  "report_speed example_a131 = Inr example_reported
   \<and> (\<exists>ds fr. length fr = 13 \<and>
         effects (modbus example_reported) =
           effects (modbus example_a131) @ discards ds @ [Readable False] @ map Getc fr
             @ [Printf_rpm (hz_to_rpm (decode_hz fr))])"
  using report_speed_clears_before_reading [of example_a131]
  by (simp add: report_speed_example)

subsection \<open>Decoding the status frame\<close>

text \<open>
  Claim C6, the claim as stated: a status frame whose digits D1 to D5 are 0, 0, 2, 5, 0
  is decoded to the raw value 250. On the frame below (clockwise indicator set,
  checksum bytes as the protocol defines them) the decoded value is 25.
\<close>

theorem decode_hz_00250_not_250:
  "decode_hz [0x00, 0x55, 0, 0, 2, 5, 0, 0x02, 0x01, 0x00, 0x51, 0xB0, 0xFF] \<noteq> 250"
proof -
  have "decode_hz [0x00, 0x55, 0, 0, 2, 5, 0, 0x02, 0x01, 0x00, 0x51, 0xB0, 0xFF] = 25"
    by code_simp
  then show ?thesis by simp
qed

text \<open>
  Claim C6, amended. For every status frame whose digits D1 to D5 are 0, 0, 2, 5, 0,
  whatever the other bytes and whatever was discarded before, \<open>report_speed\<close> returns
  and reports 0 rpm: the raw value it decodes is below 100, and the reported value is
  \<open>(raw / 100) * 60\<close> on unsigned integers, dividing first.
\<close>

theorem report_speed_00250_frame:
  assumes "readable_replies (modbus s) = replicate (length ds) True @ False # bs"
    and "getc_replies (modbus s) = ds @ [b0, b1, 0, 0, 2, 5, 0, d6, b8, b9, b10, b11, b12] @ rest"
  shows "uint (decode_hz [b0, b1, 0, 0, 2, 5, 0, d6, b8, b9, b10, b11, b12]) < 100
         \<and> hz_to_rpm (decode_hz [b0, b1, 0, 0, 2, 5, 0, d6, b8, b9, b10, b11, b12]) = 0
         \<and> (\<exists>s'. report_speed s = Inr s'
               \<and> effects (modbus s') =
                   effects (modbus s) @ discards ds @ [Readable False]
                     @ map Getc [b0, b1, 0, 0, 2, 5, 0, d6, b8, b9, b10, b11, b12]
                     @ [Printf_rpm 0])"
proof -
  define fr where "fr = [b0, b1, 0, 0, 2, 5, 0, d6, b8, b9, b10, b11, b12]"
  have len: "length fr = 13"
    by (simp add: fr_def)
  have hz: "uint (decode_hz fr) < 100"
    unfolding fr_def by (rule decode_hz_below_100)
  then have rpm: "hz_to_rpm (decode_hz fr) = 0"
    by (rule small_hz_to_rpm)
  from report_speed_run [OF assms(1) assms(2) [folded fr_def] len]
  have "\<exists>s'. report_speed s = Inr s'
          \<and> effects (modbus s') =
              effects (modbus s) @ discards ds @ [Readable False] @ map Getc fr @ [Printf_rpm 0]"
    by (simp add: rpm)
  with hz rpm show ?thesis
    by (simp only: fr_def) 
qed

theorem report_speed_00250_frame_witness:
  "readable_replies (modbus example_a131) = replicate (length [0x12, 0xFF :: u8]) True @ False # []
   \<and> getc_replies (modbus example_a131) =
        [0x12, 0xFF] @ [0x00, 0x55, 0, 0, 2, 5, 0, 0x02, 0x01, 0x00, 0x51, 0xB0, 0xFF] @ []
   \<and> uint (decode_hz [0x00, 0x55, 0, 0, 2, 5, 0, 0x02, 0x01, 0x00, 0x51, 0xB0, 0xFF]) < 100
   \<and> hz_to_rpm (decode_hz [0x00, 0x55, 0, 0, 2, 5, 0, 0x02, 0x01, 0x00, 0x51, 0xB0, 0xFF]) = 0
   \<and> (\<exists>s'. report_speed example_a131 = Inr s'
         \<and> effects (modbus s') =
             effects (modbus example_a131) @ discards [0x12, 0xFF] @ [Readable False]
               @ map Getc [0x00, 0x55, 0, 0, 2, 5, 0, 0x02, 0x01, 0x00, 0x51, 0xB0, 0xFF]
               @ [Printf_rpm 0])"
proof -
  have h1: "readable_replies (modbus example_a131)
            = replicate (length [0x12, 0xFF :: u8]) True @ False # []"
    by (simp add: example_a131_def example_modbus_def)
  have h2: "getc_replies (modbus example_a131) =
        [0x12, 0xFF] @ [0x00, 0x55, 0, 0, 2, 5, 0, 0x02, 0x01, 0x00, 0x51, 0xB0, 0xFF] @ []"
    by (simp add: example_a131_def example_modbus_def status_00250_def)
  show ?thesis
    using h1 h2 report_speed_00250_frame [OF h1 h2] by blast
qed

text \<open>With the raw value 250 the same conversion would give 120 rpm, not 0.\<close>

lemma hz_to_rpm_250: "hz_to_rpm 250 = 120"
  by (simp add: hz_to_rpm_def)

subsection \<open>Order of the effects of a transmission\<close>

lemma send_time_ceiling:
  "send_time n m =
     \<lceil>flt_val (flt_mult (delay_time_bits m) (flt_of_int (delay_time_bits m) (int n)) (delay_time m))\<rceil>"
  by (simp add: send_time_def Let_def flt_ceil_val)

text \<open>
  Where the product of the byte count and \<open>delay_time\<close> needs no rounding, the delay is
  the ceiling of the exact product; for the example bus (1.1458 ms for a byte) it is 11.
\<close>

lemma send_time_exact:
  assumes "nat (bitlen \<bar>int n * fst (delay_time m)\<bar>) \<le> delay_time_bits m"
    and "nat (bitlen (int n)) \<le> delay_time_bits m"
  shows "send_time n m = \<lceil>real n * flt_val (delay_time m)\<rceil>"
proof -
  have "flt_of_int (delay_time_bits m) (int n) = (int n, 0)"
    using assms(2) by (simp add: flt_of_int_def round_to_fits)
  moreover have "flt_mult (delay_time_bits m) (int n, 0) (delay_time m)
      = (int n * fst (delay_time m), snd (delay_time m))"
    using assms(1) by (simp add: flt_mult_def round_to_fits)
  ultimately show ?thesis
    by (simp add: send_time_def Let_def flt_ceil_val flt_val_def mult.assoc)
qed

lemma send_time_example: "send_time 9 example_modbus = 11"
  by code_simp

lemma send_time_bounds:
  assumes "4 \<le> delay_time_bits m"
  shows "\<lceil>9 * flt_val (delay_time m)
           - \<bar>9 * flt_val (delay_time m)\<bar> * 2 powr (- real (delay_time_bits m))\<rceil>
         \<le> send_time 9 m"
    and "send_time 9 m
         \<le> \<lceil>9 * flt_val (delay_time m)
              + \<bar>9 * flt_val (delay_time m)\<bar> * 2 powr (- real (delay_time_bits m))\<rceil>"
proof -
  define x where "x = flt_val (flt_mult (delay_time_bits m)
      (flt_of_int (delay_time_bits m) 9) (delay_time m))"
  have st: "send_time 9 m = \<lceil>x\<rceil>"
    by (simp add: send_time_def Let_def flt_ceil_val x_def)
  have "\<bar>x - 9 * flt_val (delay_time m)\<bar>
        \<le> \<bar>9 * flt_val (delay_time m)\<bar> * 2 powr (- real (delay_time_bits m))"
    unfolding x_def using assms by (rule send_product_error)
  then have lo: "9 * flt_val (delay_time m)
        - \<bar>9 * flt_val (delay_time m)\<bar> * 2 powr (- real (delay_time_bits m)) \<le> x"
    and hi: "x \<le> 9 * flt_val (delay_time m)
        + \<bar>9 * flt_val (delay_time m)\<bar> * 2 powr (- real (delay_time_bits m))"
    by linarith+
  from lo show "\<lceil>9 * flt_val (delay_time m)
           - \<bar>9 * flt_val (delay_time m)\<bar> * 2 powr (- real (delay_time_bits m))\<rceil>
         \<le> send_time 9 m"
    unfolding st by (rule ceiling_mono)
  from hi show "send_time 9 m
         \<le> \<lceil>9 * flt_val (delay_time m)
              + \<bar>9 * flt_val (delay_time m)\<bar> * 2 powr (- real (delay_time_bits m))\<rceil>"
    unfolding st by (rule ceiling_mono)
qed

lemma send_time_9_exact:
  assumes "4 \<le> delay_time_bits m"
    and "nat (bitlen \<bar>9 * fst (delay_time m)\<bar>) \<le> delay_time_bits m"
  shows "send_time 9 m = \<lceil>9 * flt_val (delay_time m)\<rceil>"
proof -
  have "flt_mult (delay_time_bits m) (flt_of_int (delay_time_bits m) 9) (delay_time m)
        = (9 * fst (delay_time m), snd (delay_time m))"
    using assms by (simp add: nine_times round_to_fits)
  then show ?thesis
    by (simp add: send_time_def Let_def flt_ceil_val flt_val_nine)
qed

lemma example_exact_modbus:
  "delay_time (modbus example_exact) = (5, - 2)"
  "delay_time_bits (modbus example_exact) = 24"
  "effects (modbus example_exact) = []"
  by (simp_all add: example_exact_def example_a131_def example_modbus_def)

lemma send_time_example_exact: "send_time 9 (modbus example_exact) = 12"
  by (simp add: send_time_def example_exact_modbus) code_simp

lemma example_rounded_modbus:
  "delay_time (modbus example_rounded) = (14913081, - 23)"
  "delay_time_bits (modbus example_rounded) = 24"
  "effects (modbus example_rounded) = []"
  "delay_time (modbus example_rounded_double) = (8006399337547549, - 52)"
  "delay_time_bits (modbus example_rounded_double) = 53"
  "effects (modbus example_rounded_double) = []"
  by (simp_all add: example_rounded_def example_rounded_double_def example_a131_def
      example_modbus_def)

text \<open>
  Claim C8, the claim as stated: the delay after the write is the ceiling of 9 times the
  time for a byte. With a time for a byte of 14913081 * 2 ^ - 23 ms held in a \<open>float\<close>
  the exact product is 16 + 2 ^ - 23 and its ceiling is 17, but the product the code
  computes is rounded to 16 and \<open>turn_off\<close> delays 16. The same happens with a
  \<open>double\<close>.
\<close>

theorem drain_delay_not_exact_ceiling:
  "effects (modbus (turn_off example_rounded)) =
     [Dir_set, Delay 1, Serial_write turn_off_msg, Delay 16, Dir_clear, Delay 50]
   \<and> \<lceil>9 * flt_val (delay_time (modbus example_rounded))\<rceil> = 17
   \<and> effects (modbus (turn_off example_rounded_double)) =
     [Dir_set, Delay 1, Serial_write turn_off_msg, Delay 16, Dir_clear, Delay 50]
   \<and> \<lceil>9 * flt_val (delay_time (modbus example_rounded_double))\<rceil> = 17"
proof -
  have "flt_ceil (flt_mult 24 (flt_of_int 24 9) (14913081, - 23)) = 16"
    by code_simp
  then have 1: "send_time 9 (modbus example_rounded) = 16"
    by (simp add: send_time_def example_rounded_modbus)
  have "flt_ceil (flt_mult 53 (flt_of_int 53 9) (8006399337547549, - 52)) = 16"
    by code_simp
  then have 2: "send_time 9 (modbus example_rounded_double) = 16"
    by (simp add: send_time_def example_rounded_modbus)
  have 3: "\<lceil>9 * flt_val (delay_time (modbus example_rounded))\<rceil> = 17"
    by (simp add: example_rounded_modbus flt_val_def two_powr_int powr_minus_divide)
  have 4: "\<lceil>9 * flt_val (delay_time (modbus example_rounded_double))\<rceil> = 17"
    by (simp add: example_rounded_modbus flt_val_def two_powr_int powr_minus_divide)
  show ?thesis
    using 3 4 by (simp add: turn_off_effects example_rounded_modbus 1 2)
qed

text \<open>
  Claim C8, amended. \<open>turn_on\<close>, \<open>turn_off\<close> and \<open>set_speed\<close> each add exactly six
  events, in this order: set the direction pin, delay 1, write the nine bytes of the
  frame, delay, clear the direction pin, delay 50. The fourth is the ceiling of the
  product of 9 and \<open>delay_time\<close> computed in the floating-point type of
  \<open>delay_time\<close>: with at least 4 significant bits \<open>p\<close>, that product is within the
  relative error \<open>2 ^ - p\<close> of the exact product, the delay lies between the ceilings of
  the exact product less and plus that error, and it is the ceiling of the exact
  product whenever the exact product is representable.
\<close>

theorem transmission_sequence:
  "effects (modbus (turn_on s)) =
     effects (modbus s) @
       [Dir_set, Delay 1, Serial_write turn_on_msg, Delay (send_time 9 (modbus s)),
        Dir_clear, Delay 50]
   \<and> effects (modbus (turn_off s)) =
     effects (modbus s) @
       [Dir_set, Delay 1, Serial_write turn_off_msg, Delay (send_time 9 (modbus s)),
        Dir_clear, Delay 50]
   \<and> effects (modbus (set_speed rpm s)) =
     effects (modbus s) @
       [Dir_set, Delay 1, Serial_write (set_speed_msg rpm), Delay (send_time 9 (modbus s)),
        Dir_clear, Delay 50]
   \<and> length turn_on_msg = 9 \<and> length turn_off_msg = 9 \<and> length (set_speed_msg rpm) = 9
   \<and> send_time 9 (modbus s) =
       \<lceil>flt_val (flt_mult (delay_time_bits (modbus s))
                  (flt_of_int (delay_time_bits (modbus s)) 9) (delay_time (modbus s)))\<rceil>
   \<and> (4 \<le> delay_time_bits (modbus s) \<longrightarrow>
        \<bar>flt_val (flt_mult (delay_time_bits (modbus s))
                  (flt_of_int (delay_time_bits (modbus s)) 9) (delay_time (modbus s)))
          - 9 * flt_val (delay_time (modbus s))\<bar>
          \<le> \<bar>9 * flt_val (delay_time (modbus s))\<bar> * 2 powr (- real (delay_time_bits (modbus s)))
        \<and> \<lceil>9 * flt_val (delay_time (modbus s))
             - \<bar>9 * flt_val (delay_time (modbus s))\<bar>
               * 2 powr (- real (delay_time_bits (modbus s)))\<rceil>
            \<le> send_time 9 (modbus s)
        \<and> send_time 9 (modbus s)
            \<le> \<lceil>9 * flt_val (delay_time (modbus s))
                 + \<bar>9 * flt_val (delay_time (modbus s))\<bar>
                   * 2 powr (- real (delay_time_bits (modbus s)))\<rceil>
        \<and> (nat (bitlen \<bar>9 * fst (delay_time (modbus s))\<bar>) \<le> delay_time_bits (modbus s) \<longrightarrow>
             send_time 9 (modbus s) = \<lceil>9 * flt_val (delay_time (modbus s))\<rceil>))"
proof -
  have seq: "effects (modbus (turn_on s)) =
     effects (modbus s) @
       [Dir_set, Delay 1, Serial_write turn_on_msg, Delay (send_time 9 (modbus s)),
        Dir_clear, Delay 50]
   \<and> effects (modbus (turn_off s)) =
     effects (modbus s) @
       [Dir_set, Delay 1, Serial_write turn_off_msg, Delay (send_time 9 (modbus s)),
        Dir_clear, Delay 50]
   \<and> effects (modbus (set_speed rpm s)) =
     effects (modbus s) @
       [Dir_set, Delay 1, Serial_write (set_speed_msg rpm), Delay (send_time 9 (modbus s)),
        Dir_clear, Delay 50]
   \<and> length turn_on_msg = 9 \<and> length turn_off_msg = 9 \<and> length (set_speed_msg rpm) = 9"
    by (simp add: turn_on_effects turn_off_effects set_speed_effects turn_on_msg_length
        turn_off_msg_length set_speed_msg_length)
  note ceil = send_time_ceiling [of 9 "modbus s"]
  have arith: "\<bar>flt_val (flt_mult (delay_time_bits (modbus s))
                  (flt_of_int (delay_time_bits (modbus s)) 9) (delay_time (modbus s)))
          - 9 * flt_val (delay_time (modbus s))\<bar>
          \<le> \<bar>9 * flt_val (delay_time (modbus s))\<bar> * 2 powr (- real (delay_time_bits (modbus s)))
        \<and> \<lceil>9 * flt_val (delay_time (modbus s))
             - \<bar>9 * flt_val (delay_time (modbus s))\<bar>
               * 2 powr (- real (delay_time_bits (modbus s)))\<rceil>
            \<le> send_time 9 (modbus s)
        \<and> send_time 9 (modbus s)
            \<le> \<lceil>9 * flt_val (delay_time (modbus s))
                 + \<bar>9 * flt_val (delay_time (modbus s))\<bar>
                   * 2 powr (- real (delay_time_bits (modbus s)))\<rceil>
        \<and> (nat (bitlen \<bar>9 * fst (delay_time (modbus s))\<bar>) \<le> delay_time_bits (modbus s) \<longrightarrow>
             send_time 9 (modbus s) = \<lceil>9 * flt_val (delay_time (modbus s))\<rceil>)"
    if p: "4 \<le> delay_time_bits (modbus s)"
    using send_product_error [OF p, of "delay_time (modbus s)"]
      send_time_bounds [OF p] send_time_9_exact [OF p]
    by blast
  from seq ceil arith show ?thesis
    by (simp only: int_ops) blast
qed

theorem transmission_sequence_witness:
  "4 \<le> delay_time_bits (modbus example_exact)
   \<and> nat (bitlen \<bar>9 * fst (delay_time (modbus example_exact))\<bar>)
        \<le> delay_time_bits (modbus example_exact)
   \<and> send_time 9 (modbus example_exact) = \<lceil>9 * flt_val (delay_time (modbus example_exact))\<rceil>
   \<and> send_time 9 (modbus example_exact) = 12
   \<and> effects (modbus (turn_on example_exact)) =
        effects (modbus example_exact) @
          [Dir_set, Delay 1, Serial_write turn_on_msg,
           Delay (send_time 9 (modbus example_exact)), Dir_clear, Delay 50]"
proof -
  have h1: "4 \<le> delay_time_bits (modbus example_exact)"
    by (simp add: example_exact_modbus)
  have "bitlen 45 = 6"
    by code_simp
  then have h2: "nat (bitlen \<bar>9 * fst (delay_time (modbus example_exact))\<bar>)
        \<le> delay_time_bits (modbus example_exact)"
    by (simp add: example_exact_modbus)
  show ?thesis
    using h1 h2 transmission_sequence [of example_exact 3000] send_time_example_exact
    by blast
qed

subsection \<open>The flag spindle_on\<close>

lemma report_speed_keeps_controller:
  assumes "report_speed s = Inr s'"
  shows "s' = s\<lparr>modbus := modbus s'\<rparr>"
  using assms
  by (cases s) (auto simp: report_speed_def Let_def split: sum.splits prod.splits)

text \<open>
  Claim C9. \<open>set_speed\<close> and \<open>report_speed\<close> change nothing of the controller but the
  state of the Modbus object (its effects and the consumed input); the flag
  \<open>spindle_on\<close> is set to true by \<open>turn_on\<close> and to false by \<open>turn_off\<close>.
\<close>

theorem spindle_on_set_only_by_turn_on_turn_off:
  "set_speed rpm s = s\<lparr>modbus := modbus (set_speed rpm s)\<rparr>
   \<and> spindle_on (set_speed rpm s) = spindle_on s
   \<and> (\<forall>s'. report_speed s = Inr s' \<longrightarrow>
          s' = s\<lparr>modbus := modbus s'\<rparr> \<and> spindle_on s' = spindle_on s)
   \<and> spindle_on (turn_on s) = True
   \<and> spindle_on (turn_off s) = False"
proof -
  have "set_speed rpm s = s\<lparr>modbus := modbus (set_speed rpm s)\<rparr>"
    by (cases s) (simp add: set_speed_def Let_def)
  moreover have "spindle_on (set_speed rpm s) = spindle_on s"
    by (simp add: set_speed_def Let_def)
  moreover have "s' = s\<lparr>modbus := modbus s'\<rparr> \<and> spindle_on s' = spindle_on s"
    if "report_speed s = Inr s'" for s'
  proof -
    from that have "s' = s\<lparr>modbus := modbus s'\<rparr>"
      by (rule report_speed_keeps_controller)
    moreover from this have "spindle_on s' = spindle_on (s\<lparr>modbus := modbus s'\<rparr>)"
      by simp
    ultimately show ?thesis by simp
  qed
  moreover have "spindle_on (turn_on s) = True" "spindle_on (turn_off s) = False"
    by (simp_all add: turn_on_def turn_off_def Let_def)
  ultimately show ?thesis by blast
qed

theorem spindle_on_set_only_by_turn_on_turn_off_witness:
  "report_speed example_a131 = Inr example_reported
   \<and> example_reported = example_a131\<lparr>modbus := modbus example_reported\<rparr>
   \<and> spindle_on example_reported = spindle_on example_a131
   \<and> spindle_on (set_speed 3000 example_a131) = spindle_on example_a131
   \<and> spindle_on (turn_on example_a131) = True
   \<and> spindle_on (turn_off example_a131) = False"
  using spindle_on_set_only_by_turn_on_turn_off [of 3000 example_a131] report_speed_example
  by blast

end
